theory Spec2Isabelle
  imports Complex_Main
begin

section \<open>Real-time emotion detection: the capture, classify and render loop of main.py\<close>

text \<open>
  The theory embeds \<^verbatim>\<open>main.py\<close>: the \<^verbatim>\<open>BoundingBox\<close> class, the three drawing
  functions and \<^verbatim>\<open>RealTimeEmotionDetector.execute\<close>.

  Everything the program does to the outside world is recorded as an event: polling the
  keyboard, reading the camera, calling the classifier, drawing on the frame, printing,
  showing the frame, and the two clean-up calls. The camera and the keyboard are
  scripted: the input of a run is the list of what \<^verbatim>\<open>cv2.waitKey\<close> and
  \<^verbatim>\<open>vidCapture.read\<close> return, iteration by iteration.
\<close>

subsection \<open>Constants of the module\<close>

type_synonym color = "nat \<times> nat \<times> nat"

definition WHITE_COLOR :: color where
  "WHITE_COLOR = (255, 255, 255)"

definition GREEN_COLOR :: color where
  "GREEN_COLOR = (0, 255, 0)"

definition BLUE_COLOR :: color where
  "BLUE_COLOR = (255, 255, 104)"

definition FRAME_WIDTH :: int where
  "FRAME_WIDTH = 640"

definition FRAME_HEIGHT :: int where
  "FRAME_HEIGHT = 490"

subsection \<open>BoundingBox\<close>

text \<open>
  The class stores its four constructor arguments and has three properties without a
  setter. The fields are called \<^verbatim>\<open>x, y, w, h\<close> in the source.
\<close>

record BoundingBox =
  bb_x :: int
  bb_y :: int
  bb_w :: int
  bb_h :: int

definition BoundingBox_init :: "int \<Rightarrow> int \<Rightarrow> int \<Rightarrow> int \<Rightarrow> BoundingBox" where
  "BoundingBox_init x y w h = \<lparr>bb_x = x, bb_y = y, bb_w = w, bb_h = h\<rparr>"

definition origin :: "BoundingBox \<Rightarrow> int \<times> int" where
  "origin bb = (bb_x bb, bb_y bb)"

definition top_right :: "BoundingBox \<Rightarrow> int" where
  "top_right bb = bb_x bb + bb_w bb"

definition bottom_left :: "BoundingBox \<Rightarrow> int" where
  "bottom_left bb = bb_y bb + bb_h bb"

text \<open>
  Assignment to an attribute of a box after construction. The four fields are ordinary
  instance attributes, so \<^verbatim>\<open>bb.x = v\<close> stores \<open>v\<close>. The three properties are declared
  with \<^verbatim>\<open>@property\<close> and no setter, so \<^verbatim>\<open>bb.top_right = v\<close> raises
  \<^verbatim>\<open>AttributeError\<close>, whatever \<open>v\<close> is, and leaves the box as it was.
\<close>

datatype attr = X | Y | W | H | Origin | Top_right | Bottom_left

datatype attribute_error = AttributeError

fun setattr :: "BoundingBox \<Rightarrow> attr \<Rightarrow> int \<Rightarrow> attribute_error + BoundingBox" where
  "setattr bb X v = Inr (bb\<lparr>bb_x := v\<rparr>)"
| "setattr bb Y v = Inr (bb\<lparr>bb_y := v\<rparr>)"
| "setattr bb W v = Inr (bb\<lparr>bb_w := v\<rparr>)"
| "setattr bb H v = Inr (bb\<lparr>bb_h := v\<rparr>)"
| "setattr bb Origin v = Inl AttributeError"
| "setattr bb Top_right v = Inl AttributeError"
| "setattr bb Bottom_left v = Inl AttributeError"

subsection \<open>Errors and events\<close>

text \<open>
  Two exceptions can leave \<^verbatim>\<open>execute\<close>: the error that \<^verbatim>\<open>cvtColor\<close> and
  \<^verbatim>\<open>imshow\<close> raise when they are given \<^verbatim>\<open>None\<close> for an image, and the
  \<^verbatim>\<open>ZeroDivisionError\<close> of \<^verbatim>\<open>%\<close> with a zero right operand. Nothing in the module
  catches either.
\<close>

datatype error = CvError | ZeroDivisionError

datatype 'img event =
    WaitKey int
  | VidRead
  | Classify 'img
  | ExtractFaceRectangle 'img
  | ExtractLandmarkPoints 'img
  | Rectangle 'img "int \<times> int" "int \<times> int" color int
  | Circle 'img "int \<times> int" int color int
  | PutText 'img string "int \<times> int" color
  | PrintLabels "string list"
  | ImShow 'img
  | DestroyAllWindows
  | Release

text \<open>
  A call that returns nothing is the list of events it emitted, and the exception that
  ended it, if any. Sequencing stops at the first exception.
\<close>

type_synonym 'img cmd = "'img event list \<times> error option"

definition skip :: "'img cmd" where
  "skip = ([], None)"

definition seq :: "'img cmd \<Rightarrow> 'img cmd \<Rightarrow> 'img cmd" where
  "seq c1 c2 = (case c1 of
       (ev1, Some e) \<Rightarrow> (ev1, Some e)
     | (ev1, None) \<Rightarrow> (ev1 @ fst c2, snd c2))"

fun for_each :: "('a \<Rightarrow> 'img cmd) \<Rightarrow> 'a list \<Rightarrow> 'img cmd" where
  "for_each body [] = skip"
| "for_each body (p # ps) = seq (body p) (for_each body ps)"

subsection \<open>The OpenCV drawing primitives\<close>

text \<open>
  The image argument is what \<^verbatim>\<open>read_frame\<close> returned: a frame, or \<^verbatim>\<open>None\<close> when
  the camera gave none. Handed \<^verbatim>\<open>None\<close>, the three drawing calls draw nothing and
  return, while \<^verbatim>\<open>imshow\<close> and \<^verbatim>\<open>cvtColor\<close> raise. Coordinates are taken to fit a C
  \<^verbatim>\<open>int\<close>, as pixel coordinates do.
\<close>

definition cv2_rectangle ::
  "'img option \<Rightarrow> int \<times> int \<Rightarrow> int \<times> int \<Rightarrow> color \<Rightarrow> int \<Rightarrow> 'img cmd" where
  "cv2_rectangle img p1 p2 col thickness = (case img of
       None \<Rightarrow> ([], None)
     | Some f \<Rightarrow> ([Rectangle f p1 p2 col thickness], None))"

definition cv2_circle ::
  "'img option \<Rightarrow> int \<times> int \<Rightarrow> int \<Rightarrow> color \<Rightarrow> int \<Rightarrow> 'img cmd" where
  "cv2_circle img center radius col thickness = (case img of
       None \<Rightarrow> ([], None)
     | Some f \<Rightarrow> ([Circle f center radius col thickness], None))"

definition cv2_putText :: "'img option \<Rightarrow> string \<Rightarrow> int \<times> int \<Rightarrow> color \<Rightarrow> 'img cmd" where
  "cv2_putText img txt org col = (case img of
       None \<Rightarrow> ([], None)
     | Some f \<Rightarrow> ([PutText f txt org col], None))"

definition cv2_imshow :: "'img option \<Rightarrow> 'img cmd" where
  "cv2_imshow img = (case img of
       None \<Rightarrow> ([], Some CvError)
     | Some f \<Rightarrow> ([ImShow f], None))"

subsection \<open>The drawing functions\<close>

text \<open>\<^verbatim>\<open>str.upper\<close>, on the ASCII letters.\<close>

definition upper_char :: "char \<Rightarrow> char" where
  "upper_char c = (case map_of (zip ''abcdefghijklmnopqrstuvwxyz''
                                    ''ABCDEFGHIJKLMNOPQRSTUVWXYZ'') c of
       Some u \<Rightarrow> u
     | None \<Rightarrow> c)"

definition upper :: "string \<Rightarrow> string" where
  "upper s = map upper_char s"

definition draw_face_rectangle :: "BoundingBox \<Rightarrow> 'img option \<Rightarrow> 'img cmd" where
  "draw_face_rectangle bb img =
     cv2_rectangle img (origin bb) (top_right bb, bottom_left bb) BLUE_COLOR 2"

definition draw_landmark_points :: "(int \<times> int) list option \<Rightarrow> 'img option \<Rightarrow> 'img cmd" where
  "draw_landmark_points points img = (case points of
       None \<Rightarrow> skip
     | Some ps \<Rightarrow> for_each (\<lambda>(x, y). cv2_circle img (x, y) 1 WHITE_COLOR (- 1)) ps)"

text \<open>
  \<^verbatim>\<open>NO_FACE_LABEL\<close> is imported from \<^verbatim>\<open>utils.image_classifier\<close>; its value is a
  parameter here.
\<close>

definition write_label ::
  "string \<Rightarrow> int \<Rightarrow> int \<Rightarrow> string \<Rightarrow> 'img option \<Rightarrow> 'img cmd" where
  "write_label NO_FACE_LABEL x y label img =
     seq (if label = NO_FACE_LABEL
          then cv2_putText img (upper label) (FRAME_WIDTH div 2, FRAME_HEIGHT div 2) BLUE_COLOR
          else skip)
         (cv2_putText img label (x + 10, y - 10) BLUE_COLOR)"

subsection \<open>The detector\<close>

type_synonym rectangle = "int \<times> int \<times> int \<times> int"

type_synonym points = "(int \<times> int) list option"

text \<open>
  The classifier is a collaborator: its three operations are parameters, and so is the
  image that grey-scale conversion followed by CLAHE computes from a frame.
\<close>

record 'img detector =
  NO_FACE :: string
  gray_clahe :: "'img \<Rightarrow> 'img"
  classify :: "'img \<Rightarrow> string list"
  extract_face_rectangle :: "'img \<Rightarrow> rectangle list"
  extract_landmark_points :: "'img \<Rightarrow> points list"

text \<open>\<^verbatim>\<open>read_frame\<close> drops the success flag of \<^verbatim>\<open>vidCapture.read\<close>.\<close>

definition read_frame :: "bool \<times> 'img option \<Rightarrow> 'img option" where
  "read_frame r = (case r of (rect, frame) \<Rightarrow> frame)"

definition transform_img :: "'img detector \<Rightarrow> 'img option \<Rightarrow> error + 'img" where
  "transform_img d img = (case img of
       None \<Rightarrow> Inl CvError
     | Some f \<Rightarrow> Inr (gray_clahe d f))"

subsection \<open>execute\<close>

record args =
  wait_key_delay :: int
  quit_key :: char
  frame_period_s :: rat

definition default_args :: args where
  "default_args = \<lparr>wait_key_delay = 33, quit_key = CHR ''q'', frame_period_s = 3 / 4\<rparr>"

record locals =
  frame_cnt :: int
  predicted_labels :: "string list"
  old_txt :: "string list option"
  rectangles :: "rectangle list"
  landmark_points_list :: "points list"

text \<open>
  The state before the first iteration. \<^verbatim>\<open>predicted_labels\<close> starts as the empty
  string, over which \<^verbatim>\<open>zip\<close> iterates zero times, as over the empty list.
\<close>

definition initial_locals :: locals where
  "initial_locals = \<lparr>frame_cnt = 0, predicted_labels = [], old_txt = None,
     rectangles = [(0, 0, 0, 0)], landmark_points_list = [Some [(0, 0)]]\<rparr>"

text \<open>
  \<^verbatim>\<open>frame_cnt % (frame_period_s * 100)\<close>: the right operand is a float, so the
  remainder is a float remainder, and a zero operand raises. Rationals stand for the
  floats; for the default \<^verbatim>\<open>0.75\<close> the product is exactly \<^verbatim>\<open>75.0\<close>. A period whose
  float product with 100 is rounded (\<^verbatim>\<open>0.07 * 100\<close> is \<^verbatim>\<open>7.000000000000001\<close>) is not
  covered: there the rational product differs from the operand the code uses.
\<close>

definition float_mod :: "rat \<Rightarrow> rat \<Rightarrow> error + rat" where
  "float_mod a b = (if b = 0 then Inl ZeroDivisionError
     else Inr (a - b * of_int \<lfloor>a / b\<rfloor>))"

text \<open>Lines 89 to 92: the counter is reset, then the classifier is asked three times.\<close>

definition classify_block ::
  "'img detector \<Rightarrow> 'img option \<Rightarrow> locals \<Rightarrow> 'img event list \<times> (error + locals)" where
  "classify_block d frame st = (case transform_img d frame of
       Inl e \<Rightarrow> ([], Inl e)
     | Inr g \<Rightarrow> (case frame of
           None \<Rightarrow> ([], Inl CvError)
         | Some f \<Rightarrow>
             ([Classify g, ExtractFaceRectangle f, ExtractLandmarkPoints f],
              Inr (st\<lparr>frame_cnt := 0,
                       predicted_labels := classify d g,
                       rectangles := extract_face_rectangle d f,
                       landmark_points_list := extract_landmark_points d f\<rparr>))))"

text \<open>
  Lines 93 to 100: the loop over \<^verbatim>\<open>zip(predicted_labels, rectangles,
  landmark_points_list)\<close>. The comparison with \<^verbatim>\<open>old_txt\<close> is inside the loop body.
\<close>

definition zip3 :: "'a list \<Rightarrow> 'b list \<Rightarrow> 'c list \<Rightarrow> ('a \<times> 'b \<times> 'c) list" where
  "zip3 xs ys zs = zip xs (zip ys zs)"

definition draw_annotation ::
  "'img detector \<Rightarrow> 'img option \<Rightarrow> string \<times> rectangle \<times> points \<Rightarrow> 'img cmd" where
  "draw_annotation d frame ann = (case ann of (lbl, (rx, ry, rw, rh), lm_points) \<Rightarrow>
     seq (draw_face_rectangle (BoundingBox_init rx ry rw rh) frame)
      (seq (draw_landmark_points lm_points frame)
           (write_label (NO_FACE d) rx ry lbl frame)))"

fun for_faces ::
  "'img detector \<Rightarrow> 'img option \<Rightarrow> string list \<Rightarrow> (string \<times> rectangle \<times> points) list \<Rightarrow>
   string list option \<Rightarrow> 'img event list \<times> (error + string list option)" where
  "for_faces d frame labels [] old = ([], Inr old)"
| "for_faces d frame labels (ann # anns) old = (case draw_annotation d frame ann of
       (ev, Some e) \<Rightarrow> (ev, Inl e)
     | (ev, None) \<Rightarrow>
         (let (ev_log, old') = (if old \<noteq> Some labels
                                then ([PrintLabels labels], Some labels)
                                else ([], old))
          in case for_faces d frame labels anns old' of
               (ev_rest, r) \<Rightarrow> (ev @ ev_log @ ev_rest, r)))"

text \<open>Lines 85 to 102: one iteration, given what \<^verbatim>\<open>vidCapture.read\<close> returns.\<close>

definition loop_body ::
  "'img detector \<Rightarrow> args \<Rightarrow> bool \<times> 'img option \<Rightarrow> locals \<Rightarrow>
   'img event list \<times> (error + locals)" where
  "loop_body d a rd st =
    (let cnt = frame_cnt st + 1;
         frame = read_frame rd
     in case float_mod (of_int cnt) (frame_period_s a * 100) of
          Inl e \<Rightarrow> ([VidRead], Inl e)
        | Inr m \<Rightarrow>
           (case (if m = 0 then classify_block d frame (st\<lparr>frame_cnt := 0\<rparr>)
                  else ([], Inr (st\<lparr>frame_cnt := cnt\<rparr>))) of
              (ev1, Inl e) \<Rightarrow> (VidRead # ev1, Inl e)
            | (ev1, Inr st1) \<Rightarrow>
               (case for_faces d frame (predicted_labels st1)
                       (zip3 (predicted_labels st1) (rectangles st1) (landmark_points_list st1))
                       (old_txt st1) of
                  (ev2, Inl e) \<Rightarrow> (VidRead # ev1 @ ev2, Inl e)
                | (ev2, Inr old) \<Rightarrow>
                   (case cv2_imshow frame of
                      (ev3, Some e) \<Rightarrow> (VidRead # ev1 @ ev2 @ ev3, Inl e)
                    | (ev3, None) \<Rightarrow>
                        (VidRead # ev1 @ ev2 @ ev3, Inr (st1\<lparr>old_txt := old\<rparr>))))))"

text \<open>
  The \<^verbatim>\<open>while\<close> loop. A script is what the keyboard poll and the camera return at each
  iteration. The loop ends when the quit key is polled or an exception is raised; when
  the script is used up the loop is still running. The result has one entry per
  iteration that was started: its events, and where the loop stands after it.
\<close>

datatype outcome = Running locals | Exited locals | Raised error

type_synonym 'img script = "(int \<times> bool \<times> 'img option) list"

type_synonym 'img iteration = "'img event list \<times> outcome"

text \<open>
  One pass through the \<^verbatim>\<open>while\<close>: the condition polls the keyboard, and the body runs
  when the key is not the quit key.
\<close>

definition iteration ::
  "'img detector \<Rightarrow> args \<Rightarrow> int \<times> bool \<times> 'img option \<Rightarrow> locals \<Rightarrow> 'img iteration" where
  "iteration d a inp st = (case inp of (key, rd) \<Rightarrow>
     if key = int (of_char (quit_key a)) then ([WaitKey (wait_key_delay a)], Exited st)
     else (case loop_body d a rd st of
         (ev, Inl e) \<Rightarrow> (WaitKey (wait_key_delay a) # ev, Raised e)
       | (ev, Inr st') \<Rightarrow> (WaitKey (wait_key_delay a) # ev, Running st')))"

fun while_loop ::
  "'img detector \<Rightarrow> args \<Rightarrow> 'img script \<Rightarrow> locals \<Rightarrow> 'img iteration list" where
  "while_loop d a [] st = []"
| "while_loop d a (inp # rest) st =
    (let it = iteration d a inp st
     in it # (case snd it of
                Running st' \<Rightarrow> while_loop d a rest st'
              | Exited st' \<Rightarrow> []
              | Raised e \<Rightarrow> []))"

fun is_exited :: "outcome \<Rightarrow> bool" where
  "is_exited (Exited st) = True"
| "is_exited (Running st) = False"
| "is_exited (Raised e) = False"

text \<open>
  \<^verbatim>\<open>execute\<close>: the loop from the initial state, then lines 104 and 105, which are
  reached when the loop condition became false. The second component is what is
  emitted after the loop.
\<close>

definition execute ::
  "'img detector \<Rightarrow> args \<Rightarrow> 'img script \<Rightarrow> 'img iteration list \<times> 'img event list" where
  "execute d a script = (let its = while_loop d a script initial_locals in
     (its, if its \<noteq> [] \<and> is_exited (snd (last its))
           then [DestroyAllWindows, Release] else []))"

subsection \<open>Reading a trace\<close>

fun is_classifier_call :: "'img event \<Rightarrow> bool" where
  "is_classifier_call (Classify g) = True"
| "is_classifier_call (ExtractFaceRectangle f) = True"
| "is_classifier_call (ExtractLandmarkPoints f) = True"
| "is_classifier_call e = False"

definition classifier_calls :: "'img event list \<Rightarrow> 'img event list" where
  "classifier_calls ev = filter is_classifier_call ev"

fun is_overlay :: "'img event \<Rightarrow> bool" where
  "is_overlay (Rectangle f p1 p2 col t) = True"
| "is_overlay (Circle f c r col t) = True"
| "is_overlay (PutText f txt org col) = True"
| "is_overlay e = False"

fun logged_labels :: "'img event \<Rightarrow> string list list" where
  "logged_labels (PrintLabels ls) = [ls]"
| "logged_labels e = []"

definition logs :: "'img event list \<Rightarrow> string list list" where
  "logs ev = concat (map logged_labels ev)"

text \<open>The annotations the loop over faces runs through, and what drawing them emits.\<close>

definition annotations :: "locals \<Rightarrow> (string \<times> rectangle \<times> points) list" where
  "annotations st = zip3 (predicted_labels st) (rectangles st) (landmark_points_list st)"

definition overlay :: "'img detector \<Rightarrow> 'img \<Rightarrow> (string \<times> rectangle \<times> points) list \<Rightarrow> 'img event list" where
  "overlay d f anns = concat (map (\<lambda>ann. fst (draw_annotation d (Some f) ann)) anns)"

text \<open>
  What a run has printed, iteration after iteration, and the label collection printed last
  (\<open>None\<close> while nothing has been printed).
\<close>

definition run_logs :: "'img iteration list \<Rightarrow> string list list" where
  "run_logs its = concat (map (\<lambda>it. logs (fst it)) its)"

definition last_logged :: "string list list \<Rightarrow> string list option" where
  "last_logged ls = (if ls = [] then None else Some (last ls))"

text \<open>
  Whether the next iteration finds the counter test of line 88 true, and the state after
  lines 85 to 92 of an iteration that read the frame \<open>f\<close>.
\<close>

definition due :: "args \<Rightarrow> locals \<Rightarrow> bool" where
  "due a st = (float_mod (of_int (frame_cnt st + 1)) (frame_period_s a * 100) = Inr 0)"

definition classified :: "'img detector \<Rightarrow> 'img \<Rightarrow> locals \<Rightarrow> locals" where
  "classified d f st = st\<lparr>frame_cnt := 0,
     predicted_labels := classify d (gray_clahe d f),
     rectangles := extract_face_rectangle d f,
     landmark_points_list := extract_landmark_points d f\<rparr>"

definition decided :: "'img detector \<Rightarrow> args \<Rightarrow> 'img \<Rightarrow> locals \<Rightarrow> locals" where
  "decided d a f st = (if due a st then classified d f st else st\<lparr>frame_cnt := frame_cnt st + 1\<rparr>)"


subsection \<open>Inputs for the examples\<close>

definition stub :: "nat detector" where
  "stub = \<lparr>NO_FACE = ''no face'', gray_clahe = (\<lambda>f. f),
     classify = (\<lambda>g. [''happy'', ''sad'', ''angry'']),
     extract_face_rectangle = (\<lambda>f. [(10, 10, 50, 50), (100, 20, 40, 40)]),
     extract_landmark_points = (\<lambda>f. [Some [(20, 20)], None, Some []])\<rparr>"

definition every_tick :: args where
  "every_tick = \<lparr>wait_key_delay = 33, quit_key = CHR ''q'', frame_period_s = 1 / 100\<rparr>"

text \<open>A camera that always delivers the frame \<open>0\<close>, and a keyboard that is never touched.\<close>

definition steady :: "nat \<Rightarrow> nat script" where
  "steady n = replicate n (- 1, True, Some 0)"

definition every_third :: args where
  "every_third = \<lparr>wait_key_delay = 33, quit_key = CHR ''q'', frame_period_s = 3 / 100\<rparr>"

text \<open>
  A classifier that sees one happy face in frame \<open>0\<close> and, in any other frame, reports the
  sentinel label and no rectangle.
\<close>

definition face_leaves :: "nat detector" where
  "face_leaves = \<lparr>NO_FACE = ''no face'', gray_clahe = (\<lambda>f. f),
     classify = (\<lambda>g. if g = 0 then [''happy''] else [''no face'']),
     extract_face_rectangle = (\<lambda>f. if f = 0 then [(10, 10, 50, 50)] else []),
     extract_landmark_points = (\<lambda>f. if f = 0 then [None] else [])\<rparr>"

text \<open>
  The same classifier, except that it reports the sentinel label together with a
  placeholder rectangle and no landmarks.
\<close>

definition face_leaves_boxed :: "nat detector" where
  "face_leaves_boxed = \<lparr>NO_FACE = ''no face'', gray_clahe = (\<lambda>f. f),
     classify = (\<lambda>g. if g = 0 then [''happy''] else [''no face'']),
     extract_face_rectangle = (\<lambda>f. if f = 0 then [(10, 10, 50, 50)] else [(0, 0, 0, 0)]),
     extract_landmark_points = (\<lambda>f. [None])\<rparr>"

text \<open>A camera that shows the face, then an empty picture, then the face again.\<close>

definition face_comes_back :: "nat script" where
  "face_comes_back = [(- 1, True, Some 0), (- 1, True, Some 1), (- 1, True, Some 0)]"


section \<open>Basic facts\<close>

lemma seq_simps [simp]:
  "seq (ev, None) c = (ev @ fst c, snd c)"
  "seq (ev, Some e) c = (ev, Some e)"
  "seq skip c = c"
  by (simp_all add: seq_def skip_def)

lemma float_mod_int:
  assumes "P \<noteq> 0"
  shows "float_mod (of_int c) (of_int P) = Inr (of_int (c mod P))"
proof -
  have "\<lfloor>(of_int c :: rat) / of_int P\<rfloor> = c div P"
    by (rule floor_divide_of_int_eq)
  moreover have "c - P * (c div P) = c mod P"
    by (simp add: minus_mult_div_eq_mod)
  ultimately have "(of_int c :: rat) - of_int P * of_int \<lfloor>(of_int c :: rat) / of_int P\<rfloor> = of_int (c mod P)"
    by (metis of_int_diff of_int_mult)
  with assms show ?thesis by (simp add: float_mod_def)
qed

lemma for_each_circle:
  "for_each (\<lambda>(x, y). cv2_circle (Some f) (x, y) r col t) ps = (map (\<lambda>p. Circle f p r col t) ps, None)"
  by (induction ps) (auto simp: skip_def cv2_circle_def)

lemma draw_landmark_points_Some_frame:
  "snd (draw_landmark_points pts (Some f)) = None"
  by (cases pts) (simp_all add: draw_landmark_points_def skip_def for_each_circle)

lemma draw_annotation_Some: "snd (draw_annotation d (Some f) ann) = None"
proof -
  obtain lbl rx ry rw rh pts where ann: "ann = (lbl, (rx, ry, rw, rh), pts)"
    by (metis prod_cases3 prod_cases4)
  have r: "draw_face_rectangle bb (Some f) = (fst (draw_face_rectangle bb (Some f)), None)" for bb
    by (simp add: draw_face_rectangle_def cv2_rectangle_def)
  have l: "draw_landmark_points pts (Some f) = (fst (draw_landmark_points pts (Some f)), None)"
    using draw_landmark_points_Some_frame [of pts f] by (metis prod.collapse)
  have w: "snd (write_label nf rx ry lbl (Some f)) = None" for nf
    by (simp add: write_label_def cv2_putText_def skip_def)
  show ?thesis
    unfolding ann draw_annotation_def
    apply (simp only: prod.case)
    apply (subst r, subst l)
    apply (simp add: w)
    done
qed

lemma for_each_circle_None:
  "for_each (\<lambda>(x, y). cv2_circle None (x, y) r col t) ps = ([], None)"
  by (induction ps) (auto simp: skip_def cv2_circle_def)

lemma draw_annotation_None: "draw_annotation d None ann = ([], None)"
proof -
  obtain lbl rx ry rw rh pts where ann: "ann = (lbl, (rx, ry, rw, rh), pts)"
    by (metis prod_cases3 prod_cases4)
  have l: "draw_landmark_points pts None = ([], None)"
    by (cases pts) (simp_all add: draw_landmark_points_def skip_def for_each_circle_None)
  show ?thesis
    by (simp add: ann draw_annotation_def draw_face_rectangle_def cv2_rectangle_def l
        write_label_def cv2_putText_def skip_def)
qed

lemma draw_annotation_Some_ex:
  obtains ev where "draw_annotation d (Some f) ann = (ev, None)"
  using draw_annotation_Some [of d f ann] by (metis prod.collapse)

lemma for_faces_logged:
  "for_faces d (Some f) labels anns (Some labels) = (overlay d f anns, Inr (Some labels))"
proof (induction anns)
  case Nil
  show ?case by (simp add: overlay_def)
next
  case (Cons ann anns)
  obtain ev where da: "draw_annotation d (Some f) ann = (ev, None)"
    by (rule draw_annotation_Some_ex)
  show ?case using Cons by (simp add: overlay_def da)
qed

lemma for_faces_Some:
  "for_faces d (Some f) labels anns old =
     (if anns = [] then ([], Inr old)
      else (fst (draw_annotation d (Some f) (hd anns)) @
            (if old \<noteq> Some labels then [PrintLabels labels] else []) @
            overlay d f (tl anns), Inr (Some labels)))"
proof (cases anns)
  case Nil
  then show ?thesis by simp
next
  case (Cons ann rest)
  obtain ev where da: "draw_annotation d (Some f) ann = (ev, None)"
    by (rule draw_annotation_Some_ex)
  show ?thesis
    by (simp add: Cons da for_faces_logged)
qed

lemma for_faces_None_logged:
  "for_faces d None labels anns (Some labels) = ([], Inr (Some labels))"
  by (induction anns) (simp_all add: draw_annotation_None)

lemma for_faces_None:
  "for_faces d None labels anns old =
     (if anns \<noteq> [] \<and> old \<noteq> Some labels then [PrintLabels labels] else [],
      Inr (if anns = [] then old else Some labels))"
  by (cases anns) (simp_all add: draw_annotation_None for_faces_None_logged)

lemma loop_body_None:
  "loop_body d a (ok, None) st =
     (VidRead #
      (if frame_period_s a * 100 \<noteq> 0 \<and> \<not> due a st \<and> annotations st \<noteq> [] \<and>
          old_txt st \<noteq> Some (predicted_labels st)
       then [PrintLabels (predicted_labels st)] else []),
      Inl (if frame_period_s a * 100 = 0 then ZeroDivisionError else CvError))"
proof (cases "frame_period_s a * 100 = 0")
  case True
  then show ?thesis by (simp add: loop_body_def float_mod_def Let_def)
next
  case p: False
  show ?thesis
  proof (cases "due a st")
    case True
    then have m: "float_mod (of_int (frame_cnt st + 1)) (frame_period_s a * 100) = Inr 0"
      by (simp add: due_def)
    show ?thesis
      unfolding loop_body_def Let_def m
      using True p
      by (simp add: read_frame_def classify_block_def transform_img_def)
  next
    case False
    then obtain m where m: "float_mod (of_int (frame_cnt st + 1)) (frame_period_s a * 100) = Inr m"
      and m0: "m \<noteq> 0"
      using p by (auto simp: due_def float_mod_def)
    show ?thesis
      unfolding loop_body_def Let_def m
      using False m0 p
      by (simp add: read_frame_def annotations_def for_faces_None cv2_imshow_def)
  qed
qed

lemma loop_body_zero:
  "frame_period_s a * 100 = 0 \<Longrightarrow> loop_body d a rd st = ([VidRead], Inl ZeroDivisionError)"
  by (simp add: loop_body_def float_mod_def Let_def)

lemma loop_body_Some:
  assumes "frame_period_s a * 100 \<noteq> 0"
  shows "loop_body d a (ok, Some f) st =
     (VidRead #
      (if due a st then [Classify (gray_clahe d f), ExtractFaceRectangle f, ExtractLandmarkPoints f]
       else []) @
      fst (for_faces d (Some f) (predicted_labels (decided d a f st))
             (annotations (decided d a f st)) (old_txt st)) @
      [ImShow f],
      Inr ((decided d a f st)\<lparr>old_txt :=
          if annotations (decided d a f st) = [] then old_txt st
          else Some (predicted_labels (decided d a f st))\<rparr>))"
proof (cases "due a st")
  case True
  then have m: "float_mod (of_int (frame_cnt st + 1)) (frame_period_s a * 100) = Inr 0"
    by (simp add: due_def)
  show ?thesis
    unfolding loop_body_def Let_def m
    using True
    by (simp add: read_frame_def classify_block_def transform_img_def
        decided_def classified_def annotations_def for_faces_Some cv2_imshow_def)
next
  case False
  then obtain m where m: "float_mod (of_int (frame_cnt st + 1)) (frame_period_s a * 100) = Inr m"
    and m0: "m \<noteq> 0"
    using assms by (auto simp: due_def float_mod_def)
  show ?thesis
    unfolding loop_body_def Let_def m
    using False m0
    by (simp add: read_frame_def
        decided_def annotations_def for_faces_Some cv2_imshow_def)
qed

section \<open>Facts about the loop\<close>

lemma annotations_old_txt [simp]: "annotations (st\<lparr>old_txt := v\<rparr>) = annotations st"
  by (simp add: annotations_def)

lemma while_loop_length: "length (while_loop d a script st) \<le> length script"
  by (induction script arbitrary: st) (auto simp: Let_def split: outcome.splits)

lemma while_loop_nth:
  assumes "i < length (while_loop d a script st)"
  shows "\<exists>st0. while_loop d a script st ! i = iteration d a (script ! i) st0 \<and>
           (if i = 0 then st0 = st else snd (while_loop d a script st ! (i - 1)) = Running st0)"
  using assms
proof (induction script arbitrary: st i)
  case Nil
  then show ?case by simp
next
  case (Cons inp rest)
  show ?case
  proof (cases i)
    case 0
    then show ?thesis by (simp add: Let_def)
  next
    case (Suc j)
    with Cons.prems obtain st1 where r: "snd (iteration d a inp st) = Running st1"
      by (auto simp: Let_def split: outcome.splits)
    with Cons.prems Suc have j: "j < length (while_loop d a rest st1)"
      by (simp add: Let_def)
    from Cons.IH [OF j] obtain st0 where
      st0: "while_loop d a rest st1 ! j = iteration d a (rest ! j) st0"
        "if j = 0 then st0 = st1 else snd (while_loop d a rest st1 ! (j - 1)) = Running st0"
      by blast
    show ?thesis
    proof (cases j)
      case 0
      with st0 Suc r show ?thesis by (simp add: Let_def)
    next
      case (Suc k)
      with st0 \<open>i = Suc j\<close> r show ?thesis by (auto simp: Let_def)
    qed
  qed
qed

lemma while_loop_split:
  assumes "i < length (while_loop d a script st)"
      and "snd (while_loop d a script st ! i) = Running st'"
  shows "while_loop d a script st =
           take (Suc i) (while_loop d a script st) @ while_loop d a (drop (Suc i) script) st'"
  using assms
proof (induction script arbitrary: st i)
  case Nil
  then show ?case by simp
next
  case (Cons inp rest)
  show ?case
  proof (cases i)
    case 0
    with Cons.prems show ?thesis by (simp add: Let_def)
  next
    case (Suc j)
    with Cons.prems obtain st1 where r: "snd (iteration d a inp st) = Running st1"
      by (auto simp: Let_def split: outcome.splits)
    with Cons.prems Suc have j: "j < length (while_loop d a rest st1)"
      "snd (while_loop d a rest st1 ! j) = Running st'"
      by (simp_all add: Let_def)
    from Cons.IH [OF j] show ?thesis
      using Suc r by (simp add: Let_def)
  qed
qed

lemma while_loop_last_only:
  assumes "Suc i < length (while_loop d a script st)"
  shows "\<exists>st'. snd (while_loop d a script st ! i) = Running st'"
  using assms
proof (induction script arbitrary: st i)
  case Nil
  then show ?case by simp
next
  case (Cons inp rest)
  from Cons.prems obtain st1 where r: "snd (iteration d a inp st) = Running st1"
    by (auto simp: Let_def split: outcome.splits)
  show ?case
  proof (cases i)
    case 0
    with r show ?thesis by (simp add: Let_def)
  next
    case (Suc j)
    with Cons.prems r have "Suc j < length (while_loop d a rest st1)"
      by (simp add: Let_def)
    from Cons.IH [OF this] show ?thesis using Suc r by (simp add: Let_def)
  qed
qed

lemma overlay_not_other:
  "is_overlay e \<Longrightarrow> \<not> is_classifier_call e"
  "is_overlay e \<Longrightarrow> logged_labels e = []"
  by (cases e; simp)+

lemma classifier_calls_overlay_only:
  "\<forall>e \<in> set ev. is_overlay e \<Longrightarrow> classifier_calls ev = []"
  by (auto simp: classifier_calls_def filter_empty_conv overlay_not_other)

lemma logs_overlay_only:
  "\<forall>e \<in> set ev. is_overlay e \<Longrightarrow> logs ev = []"
  by (induction ev) (auto simp: logs_def overlay_not_other)

lemma classifier_calls_append [simp]:
  "classifier_calls (xs @ ys) = classifier_calls xs @ classifier_calls ys"
  by (simp add: classifier_calls_def)

lemma logs_append [simp]: "logs (xs @ ys) = logs xs @ logs ys"
  by (simp add: logs_def)

lemma classifier_calls_Cons:
  "classifier_calls (e # ev) = (if is_classifier_call e then e # classifier_calls ev else classifier_calls ev)"
  by (simp add: classifier_calls_def)

lemma logs_Cons: "logs (e # ev) = logged_labels e @ logs ev"
  by (simp add: logs_def)

lemma draw_annotation_is_overlay:
  "\<forall>e \<in> set (fst (draw_annotation d (Some f) ann)). is_overlay e"
proof -
  obtain lbl rx ry rw rh pts where ann: "ann = (lbl, (rx, ry, rw, rh), pts)"
    by (metis prod_cases3 prod_cases4)
  have l: "\<forall>e \<in> set (fst (draw_landmark_points pts (Some f))). is_overlay e"
    by (cases pts) (auto simp: draw_landmark_points_def skip_def for_each_circle)
  have ls: "draw_landmark_points pts (Some f) = (fst (draw_landmark_points pts (Some f)), None)"
    using draw_landmark_points_Some_frame [of pts f] by (metis prod.collapse)
  have w: "\<forall>e \<in> set (fst (write_label nf rx ry lbl (Some f))). is_overlay e" for nf
    by (simp add: write_label_def cv2_putText_def skip_def)
  have "fst (draw_annotation d (Some f) ann) =
      fst (draw_face_rectangle (BoundingBox_init rx ry rw rh) (Some f)) @
      fst (draw_landmark_points pts (Some f)) @ fst (write_label (NO_FACE d) rx ry lbl (Some f))"
    unfolding ann draw_annotation_def
    apply (simp only: prod.case)
    apply (subst ls)
    apply (simp add: draw_face_rectangle_def cv2_rectangle_def)
    done
  then show ?thesis
    using l w by (auto simp: draw_face_rectangle_def cv2_rectangle_def)
qed

lemma overlay_is_overlay: "\<forall>e \<in> set (overlay d f anns). is_overlay e"
  using draw_annotation_is_overlay by (fastforce simp: overlay_def)

lemma for_faces_Some_calls:
  "classifier_calls (fst (for_faces d (Some f) labels anns old)) = []"
  by (simp add: for_faces_Some classifier_calls_overlay_only draw_annotation_is_overlay
      overlay_is_overlay classifier_calls_Cons)

lemma for_faces_Some_logs:
  "logs (fst (for_faces d (Some f) labels anns old)) =
     (if anns \<noteq> [] \<and> old \<noteq> Some labels then [labels] else [])"
  by (simp add: for_faces_Some logs_overlay_only draw_annotation_is_overlay
      overlay_is_overlay logs_Cons)

lemma for_faces_Some_overlay:
  "anns \<noteq> [] \<longrightarrow> old = Some labels \<Longrightarrow> fst (for_faces d (Some f) labels anns old) = overlay d f anns"
proof (cases "anns = []")
  case True
  then show ?thesis by (simp add: overlay_def)
next
  case False
  assume "anns \<noteq> [] \<longrightarrow> old = Some labels"
  with False show ?thesis by (simp add: for_faces_logged)
qed

text \<open>An iteration, case by case.\<close>

lemma iteration_quit:
  "key = int (of_char (quit_key a)) \<Longrightarrow>
   iteration d a (key, rd) st = ([WaitKey (wait_key_delay a)], Exited st)"
  by (simp add: iteration_def)

lemma iteration_None:
  "key \<noteq> int (of_char (quit_key a)) \<Longrightarrow>
   iteration d a (key, ok, None) st =
     (WaitKey (wait_key_delay a) # VidRead #
      (if frame_period_s a * 100 \<noteq> 0 \<and> \<not> due a st \<and> annotations st \<noteq> [] \<and>
          old_txt st \<noteq> Some (predicted_labels st)
       then [PrintLabels (predicted_labels st)] else []),
      Raised (if frame_period_s a * 100 = 0 then ZeroDivisionError else CvError))"
  by (simp add: iteration_def loop_body_None)

lemma iteration_None_logged:
  assumes "key \<noteq> int (of_char (quit_key a))"
      and "annotations st \<noteq> [] \<longrightarrow> old_txt st = Some (predicted_labels st)"
  shows "iteration d a (key, ok, None) st =
     ([WaitKey (wait_key_delay a), VidRead],
      Raised (if frame_period_s a * 100 = 0 then ZeroDivisionError else CvError))"
  using assms(2) unfolding iteration_None [OF assms(1)] by auto

lemma iteration_zero:
  "key \<noteq> int (of_char (quit_key a)) \<Longrightarrow> frame_period_s a * 100 = 0 \<Longrightarrow>
   iteration d a (key, rd) st = ([WaitKey (wait_key_delay a), VidRead], Raised ZeroDivisionError)"
  by (simp add: iteration_def loop_body_zero)

lemma iteration_Some:
  assumes "key \<noteq> int (of_char (quit_key a))" and "frame_period_s a * 100 \<noteq> 0"
  shows "iteration d a (key, ok, Some f) st =
     (WaitKey (wait_key_delay a) # VidRead #
      (if due a st then [Classify (gray_clahe d f), ExtractFaceRectangle f, ExtractLandmarkPoints f]
       else []) @
      fst (for_faces d (Some f) (predicted_labels (decided d a f st))
             (annotations (decided d a f st)) (old_txt st)) @
      [ImShow f],
      Running ((decided d a f st)\<lparr>old_txt :=
          if annotations (decided d a f st) = [] then old_txt st
          else Some (predicted_labels (decided d a f st))\<rparr>))"
  using assms by (simp add: iteration_def loop_body_Some)

lemma iteration_Running:
  assumes "iteration d a inp st = (ev, Running st')"
  obtains key ok f where "inp = (key, ok, Some f)" "key \<noteq> int (of_char (quit_key a))"
    "frame_period_s a * 100 \<noteq> 0"
proof -
  obtain key ok fr where inp: "inp = (key, ok, fr)" by (metis prod_cases3)
  have k: "key \<noteq> int (of_char (quit_key a))"
    using assms by (auto simp: inp iteration_def)
  have p: "frame_period_s a * 100 \<noteq> 0"
    using assms k by (auto simp: inp iteration_zero)
  have "fr \<noteq> None"
  proof
    assume "fr = None"
    with assms iteration_None [OF k, of d ok st] show False by (simp add: inp)
  qed
  then obtain f where "fr = Some f" by auto
  with inp k p that show ?thesis by blast
qed

lemma iteration_not_Running:
  assumes "\<And>st'. snd (iteration d a inp st) \<noteq> Running st'"
  shows "classifier_calls (fst (iteration d a inp st)) = [] \<and>
         filter is_overlay (fst (iteration d a inp st)) = [] \<and>
         ((annotations st \<noteq> [] \<longrightarrow> old_txt st = Some (predicted_labels st)) \<longrightarrow>
          logs (fst (iteration d a inp st)) = [])"
proof -
  obtain key ok fr where inp: "inp = (key, ok, fr)" by (metis prod_cases3)
  show ?thesis
  proof (cases "key = int (of_char (quit_key a))")
    case True
    then show ?thesis by (simp add: inp iteration_quit classifier_calls_def logs_def)
  next
    case k: False
    show ?thesis
    proof (cases "frame_period_s a * 100 = 0")
      case True
      with k show ?thesis by (simp add: inp iteration_zero classifier_calls_def logs_def)
    next
      case p: False
      show ?thesis
      proof (cases fr)
        case None
        with k show ?thesis by (auto simp: inp iteration_None classifier_calls_def logs_def)
      next
        case (Some f)
        have "\<exists>st'. snd (iteration d a inp st) = Running st'"
          by (simp add: inp Some iteration_Some [OF k p])
        with assms show ?thesis by blast
      qed
    qed
  qed
qed

lemma due_int:
  assumes "frame_period_s a * 100 = of_int P" and "P \<noteq> 0"
  shows "due a st \<longleftrightarrow> (frame_cnt st + 1) mod P = 0"
proof -
  have "float_mod (of_int (frame_cnt st + 1)) (frame_period_s a * 100) =
      Inr (of_int ((frame_cnt st + 1) mod P))"
    unfolding assms(1) by (rule float_mod_int [OF assms(2)])
  then show ?thesis by (simp add: due_def)
qed

lemma classifier_calls_Nil [simp]: "classifier_calls [] = []"
  by (simp add: classifier_calls_def)

lemma logs_Nil [simp]: "logs [] = []"
  by (simp add: logs_def)

lemma succ_mod:
  fixes c P :: int
  assumes "0 \<le> c" "c < P"
  shows "(c + 1) mod P = (if c + 1 = P then 0 else c + 1)"
  using assms by (cases "c + 1 = P") simp_all

lemma iteration_Running_facts:
  assumes "iteration d a inp st = (ev, Running st')"
  shows "\<exists>key ok f. inp = (key, ok, Some f) \<and>
     st' = (decided d a f st)\<lparr>old_txt :=
          if annotations (decided d a f st) = [] then old_txt st
          else Some (predicted_labels (decided d a f st))\<rparr> \<and>
     ev = WaitKey (wait_key_delay a) # VidRead #
      (if due a st then [Classify (gray_clahe d f), ExtractFaceRectangle f, ExtractLandmarkPoints f]
       else []) @
      fst (for_faces d (Some f) (predicted_labels (decided d a f st))
             (annotations (decided d a f st)) (old_txt st)) @
      [ImShow f]"
proof -
  from assms obtain key ok f where inp: "inp = (key, ok, Some f)"
    and k: "key \<noteq> int (of_char (quit_key a))" and p: "frame_period_s a * 100 \<noteq> 0"
    by (rule iteration_Running)
  from assms show ?thesis
    unfolding inp iteration_Some [OF k p] by blast
qed

lemma iteration_keeps_logged:
  assumes "iteration d a inp st = (ev, Running st')"
  shows "annotations st' \<noteq> [] \<longrightarrow> old_txt st' = Some (predicted_labels st')"
proof -
  from iteration_Running_facts [OF assms] obtain f where
    "st' = (decided d a f st)\<lparr>old_txt :=
          if annotations (decided d a f st) = [] then old_txt st
          else Some (predicted_labels (decided d a f st))\<rparr>"
    by blast
  then show ?thesis by simp
qed

lemma initial_logged:
  "annotations initial_locals \<noteq> [] \<longrightarrow>
   old_txt initial_locals = Some (predicted_labels initial_locals)"
  by (simp add: annotations_def zip3_def initial_locals_def)

lemma reachable_logged:
  assumes i: "i < length (while_loop d a script st)"
      and st: "annotations st \<noteq> [] \<longrightarrow> old_txt st = Some (predicted_labels st)"
  shows "\<exists>st0. while_loop d a script st ! i = iteration d a (script ! i) st0 \<and>
           (annotations st0 \<noteq> [] \<longrightarrow> old_txt st0 = Some (predicted_labels st0))"
proof (cases i)
  case 0
  with while_loop_nth [OF i] st show ?thesis by auto
next
  case (Suc k)
  with while_loop_nth [OF i] obtain st0 where
    st0: "while_loop d a script st ! i = iteration d a (script ! i) st0"
      "snd (while_loop d a script st ! k) = Running st0"
    by auto
  from i Suc have k: "k < length (while_loop d a script st)" by simp
  from while_loop_nth [OF k] obtain stk where
    "while_loop d a script st ! k = iteration d a (script ! k) stk"
    by blast
  with st0(2) have "iteration d a (script ! k) stk =
      (fst (while_loop d a script st ! k), Running st0)"
    by (metis prod.collapse)
  from iteration_keeps_logged [OF this] st0(1) show ?thesis by blast
qed

lemma iteration_calls:
  assumes "iteration d a inp st = (ev, Running st')"
  shows "\<exists>key ok f. inp = (key, ok, Some f) \<and>
     classifier_calls ev =
       (if due a st then [Classify (gray_clahe d f), ExtractFaceRectangle f, ExtractLandmarkPoints f]
        else [])"
proof -
  from iteration_Running_facts [OF assms] obtain key ok f where
    inp: "inp = (key, ok, Some f)" and
    ev: "ev = WaitKey (wait_key_delay a) # VidRead #
      (if due a st then [Classify (gray_clahe d f), ExtractFaceRectangle f, ExtractLandmarkPoints f]
       else []) @
      fst (for_faces d (Some f) (predicted_labels (decided d a f st))
             (annotations (decided d a f st)) (old_txt st)) @
      [ImShow f]"
    by blast
  have "classifier_calls ev =
       (if due a st then [Classify (gray_clahe d f), ExtractFaceRectangle f, ExtractLandmarkPoints f]
        else [])"
    unfolding ev by (simp add: classifier_calls_Cons for_faces_Some_calls)
  with inp show ?thesis by blast
qed

lemma iteration_frame_cnt:
  assumes "iteration d a inp st = (ev, Running st')"
  shows "frame_cnt st' = (if due a st then 0 else frame_cnt st + 1)"
proof -
  from iteration_Running_facts [OF assms] obtain f where
    "st' = (decided d a f st)\<lparr>old_txt :=
          if annotations (decided d a f st) = [] then old_txt st
          else Some (predicted_labels (decided d a f st))\<rparr>"
    by blast
  then show ?thesis by (simp add: decided_def classified_def)
qed

lemma counter_invariant:
  assumes P: "frame_period_s a * 100 = of_int P" "0 < P"
      and st: "0 \<le> frame_cnt st" "frame_cnt st < P"
      and i: "i < length (while_loop d a script st)"
  shows "\<exists>st0. while_loop d a script st ! i = iteration d a (script ! i) st0 \<and>
               frame_cnt st0 = (frame_cnt st + int i) mod P"
  using i
proof (induction i)
  case 0
  from while_loop_nth [OF 0] st show ?case by auto
next
  case (Suc j)
  then have j: "j < length (while_loop d a script st)" by simp
  from Suc.IH [OF j] obtain stj where
    stj: "while_loop d a script st ! j = iteration d a (script ! j) stj"
      "frame_cnt stj = (frame_cnt st + int j) mod P"
    by blast
  from while_loop_nth [OF Suc.prems] obtain st0 where
    st0: "while_loop d a script st ! Suc j = iteration d a (script ! Suc j) st0"
      "snd (while_loop d a script st ! j) = Running st0"
    by auto
  from stj(1) st0(2) have "iteration d a (script ! j) stj = (fst (iteration d a (script ! j) stj), Running st0)"
    by (metis prod.collapse)
  from iteration_frame_cnt [OF this]
  have "frame_cnt st0 = (if due a stj then 0 else frame_cnt stj + 1)" .
  moreover have "due a stj \<longleftrightarrow> (frame_cnt stj + 1) mod P = 0"
    using due_int [OF P(1)] P(2) by simp
  moreover have "0 \<le> frame_cnt stj" "frame_cnt stj < P"
    using stj(2) P(2) by simp_all
  ultimately have "frame_cnt st0 = (frame_cnt stj + 1) mod P"
    by (simp add: succ_mod)
  also have "\<dots> = ((frame_cnt st + int j) mod P + 1) mod P"
    by (simp only: stj(2))
  also have "\<dots> = (frame_cnt st + int j + 1) mod P"
    by (rule mod_add_left_eq)
  also have "frame_cnt st + int j + 1 = frame_cnt st + int (Suc j)"
    by simp
  finally show ?case using st0(1) by blast
qed

section \<open>Geometry\<close>

text \<open>
  C9. A bounding box built from \<open>(x, y, w, h)\<close> has \<open>top_right = x + w\<close>,
  \<open>bottom_left = y + h\<close> and \<open>origin = (x, y)\<close>. This holds for all integers, so in
  particular for non-negative \<open>w\<close> and \<open>h\<close>. The three derived corners are read-only:
  assigning to one of them raises \<open>AttributeError\<close>. The four fields are not: assigning
  to \<open>x\<close>, \<open>y\<close>, \<open>w\<close> or \<open>h\<close> after construction succeeds and gives the box that
  the constructor would have built from the new value, so the corners move with it.
\<close>

theorem bounding_box_corners:
  "top_right (BoundingBox_init x y w h) = x + w \<and>
   bottom_left (BoundingBox_init x y w h) = y + h \<and>
   origin (BoundingBox_init x y w h) = (x, y) \<and>
   setattr bb Origin v = Inl AttributeError \<and>
   setattr bb Top_right v = Inl AttributeError \<and>
   setattr bb Bottom_left v = Inl AttributeError \<and>
   setattr (BoundingBox_init x y w h) X v = Inr (BoundingBox_init v y w h) \<and>
   setattr (BoundingBox_init x y w h) Y v = Inr (BoundingBox_init x v w h) \<and>
   setattr (BoundingBox_init x y w h) W v = Inr (BoundingBox_init x y v h) \<and>
   setattr (BoundingBox_init x y w h) H v = Inr (BoundingBox_init x y w v)"
  by (simp add: top_right_def bottom_left_def origin_def BoundingBox_init_def)

text \<open>
  A box is mutated after construction: \<^verbatim>\<open>bb = BoundingBox(0, 0, 10, 10); bb.x = 100\<close>
  succeeds, and \<open>top_right\<close> goes from \<open>10\<close> to \<open>110\<close>.
\<close>

theorem bounding_box_mutable:
  "setattr (BoundingBox_init 0 0 10 10) X 100 = Inr (BoundingBox_init 100 0 10 10) \<and>
   top_right (BoundingBox_init 0 0 10 10) = 10 \<and>
   top_right (BoundingBox_init 100 0 10 10) = 110"
  by (simp add: top_right_def BoundingBox_init_def)

section \<open>The overlay renderer\<close>

text \<open>
  C7. When the label equals the no-face sentinel, \<open>write_label\<close> draws the upper-cased
  sentinel at the centre of the frame, \<open>(FRAME_WIDTH / 2, FRAME_HEIGHT / 2) = (320, 245)\<close>,
  and then the label itself at \<open>(x + 10, y - 10)\<close>: two draws, the second the ordinary
  one. For any other label only the draw at \<open>(x + 10, y - 10)\<close> occurs.
\<close>

theorem write_label_sentinel:
  "(FRAME_WIDTH div 2, FRAME_HEIGHT div 2) = (320, 245) \<and>
   write_label nf x y nf (Some f) =
     ([PutText f (upper nf) (320, 245) BLUE_COLOR,
       PutText f nf (x + 10, y - 10) BLUE_COLOR], None) \<and>
   (label \<noteq> nf \<longrightarrow>
      write_label nf x y label (Some f) = ([PutText f label (x + 10, y - 10) BLUE_COLOR], None))"
  by (simp add: write_label_def cv2_putText_def FRAME_WIDTH_def FRAME_HEIGHT_def)

text \<open>The sentinel \<open>no face\<close> is drawn twice, \<open>happy\<close> once.\<close>

theorem write_label_sentinel_witness:
  "''happy'' \<noteq> ''no face'' \<and>
   write_label ''no face'' 5 40 ''happy'' (Some (0::nat)) =
     ([PutText 0 ''happy'' (15, 30) BLUE_COLOR], None) \<and>
   write_label ''no face'' 0 0 ''no face'' (Some (0::nat)) =
     ([PutText 0 ''NO FACE'' (320, 245) BLUE_COLOR,
       PutText 0 ''no face'' (10, - 10) BLUE_COLOR], None)"
  using write_label_sentinel [of "''no face''" 0 0 "0::nat" "''happy''"]
        write_label_sentinel [of "''no face''" 5 40 "0::nat" "''happy''"]
  by (simp add: upper_def upper_char_def)

text \<open>
  C8. With no points (\<open>None\<close>) \<open>draw_landmark_points\<close> emits nothing and raises nothing,
  whatever the image argument is. With a point sequence it draws, on the frame, one
  filled circle of radius 1 at each point, in order.
\<close>

theorem draw_landmark_points_absent:
  "draw_landmark_points None img = ([], None) \<and>
   draw_landmark_points (Some ps) (Some f) =
     (map (\<lambda>p. Circle f p 1 WHITE_COLOR (- 1)) ps, None)"
  by (simp add: draw_landmark_points_def skip_def for_each_circle)

section \<open>Pairing\<close>

text \<open>
  C3. The three result sequences are paired by position and cut to the shortest. For
  labels \<open>[la, lb, lc]\<close>, rectangles \<open>[R1, R2]\<close> and landmark sets \<open>[L1, L2, L3]\<close> the
  pairing is \<open>[(la, R1, L1), (lb, R2, L2)]\<close>; in general its length is the minimum of
  the three lengths and its \<open>i\<close>-th entry holds the \<open>i\<close>-th element of each. On a due
  iteration whose classifier returns those three sequences, the frame receives the
  drawing of \<open>(la, R1, L1)\<close>, then that of \<open>(lb, R2, L2)\<close>, and nothing for \<open>lc\<close> or
  \<open>L3\<close>.
\<close>

theorem pairing_truncates:
  "zip3 [la, lb, lc] [R1, R2] [L1, L2, L3] = [(la, R1, L1), (lb, R2, L2)] \<and>
   length (zip3 xs ys zs) = min (length xs) (min (length ys) (length zs)) \<and>
   (\<forall>i < length (zip3 xs ys zs). zip3 xs ys zs ! i = (xs ! i, ys ! i, zs ! i)) \<and>
   (due a st \<and> classify d (gray_clahe d f) = [la, lb, lc] \<and>
    extract_face_rectangle d f = [R1, R2] \<and>
    extract_landmark_points d f = [L1, L2, L3] \<longrightarrow>
      (\<exists>st'. loop_body d a (ok, Some f) st =
         (VidRead # Classify (gray_clahe d f) # ExtractFaceRectangle f # ExtractLandmarkPoints f #
          fst (draw_annotation d (Some f) (la, R1, L1)) @
          (if old_txt st \<noteq> Some [la, lb, lc] then [PrintLabels [la, lb, lc]] else []) @
          fst (draw_annotation d (Some f) (lb, R2, L2)) @ [ImShow f], Inr st') \<and>
         annotations st' = [(la, R1, L1), (lb, R2, L2)]))"
proof -
  have nz: "frame_period_s a * 100 \<noteq> 0" if "due a st"
    using that by (auto simp: due_def float_mod_def split: if_splits)
  have "\<exists>st'. loop_body d a (ok, Some f) st =
         (VidRead # Classify (gray_clahe d f) # ExtractFaceRectangle f # ExtractLandmarkPoints f #
          fst (draw_annotation d (Some f) (la, R1, L1)) @
          (if old_txt st \<noteq> Some [la, lb, lc] then [PrintLabels [la, lb, lc]] else []) @
          fst (draw_annotation d (Some f) (lb, R2, L2)) @ [ImShow f], Inr st') \<and>
         annotations st' = [(la, R1, L1), (lb, R2, L2)]"
    if h: "due a st" "classify d (gray_clahe d f) = [la, lb, lc]"
      "extract_face_rectangle d f = [R1, R2]" "extract_landmark_points d f = [L1, L2, L3]"
  proof -
    have dec: "annotations (decided d a f st) = [(la, R1, L1), (lb, R2, L2)]"
      "predicted_labels (decided d a f st) = [la, lb, lc]"
      using h by (simp_all add: decided_def classified_def annotations_def zip3_def)
    have ff: "fst (for_faces d (Some f) [la, lb, lc] [(la, R1, L1), (lb, R2, L2)] (old_txt st)) =
        fst (draw_annotation d (Some f) (la, R1, L1)) @
        (if old_txt st \<noteq> Some [la, lb, lc] then [PrintLabels [la, lb, lc]] else []) @
        fst (draw_annotation d (Some f) (lb, R2, L2))"
      by (subst for_faces_Some) (simp add: overlay_def)
    show ?thesis
      by (simp add: loop_body_Some [OF nz [OF h(1)]] dec h(1) ff del: for_faces.simps)
  qed
  then show ?thesis
    by (simp add: zip3_def)
qed

text \<open>
  A classifier returning three labels, two rectangles and three landmark sets, asked on
  the first iteration: two faces are drawn.
\<close>

theorem pairing_truncates_witness:
  "due every_tick initial_locals \<and>
   classify stub (gray_clahe stub 7) = [''happy'', ''sad'', ''angry''] \<and>
   (0::nat) < length (zip3 [''happy'', ''sad'', ''angry'']
                 [(10::int, 10::int, 50::int, 50::int), (100, 20, 40, 40)]
                 [Some [(20::int, 20::int)], None, Some []]) \<and>
   zip3 [''happy'', ''sad'', ''angry''] [(10::int, 10::int, 50::int, 50::int), (100, 20, 40, 40)]
        [Some [(20::int, 20::int)], None, Some []] ! 0 =
     (''happy'', (10, 10, 50, 50), Some [(20, 20)]) \<and>
   fst (loop_body stub every_tick (True, Some 7) initial_locals) =
     [VidRead, Classify 7, ExtractFaceRectangle 7, ExtractLandmarkPoints 7,
      Rectangle 7 (10, 10) (60, 60) BLUE_COLOR 2, Circle 7 (20, 20) 1 WHITE_COLOR (- 1),
      PutText 7 ''happy'' (20, 0) BLUE_COLOR,
      PrintLabels [''happy'', ''sad'', ''angry''],
      Rectangle 7 (100, 20) (140, 60) BLUE_COLOR 2,
      PutText 7 ''sad'' (110, 10) BLUE_COLOR,
      ImShow 7]"
proof -
  have d: "due every_tick initial_locals"
    by (simp add: due_def every_tick_def initial_locals_def float_mod_def)
  have c: "classify stub (gray_clahe stub 7) = [''happy'', ''sad'', ''angry'']"
    "extract_face_rectangle stub 7 = [(10, 10, 50, 50), (100, 20, 40, 40)]"
    "extract_landmark_points stub 7 = [Some [(20, 20)], None, Some []]"
    "gray_clahe stub 7 = 7"
    by (simp_all add: stub_def)
  have dr: "fst (draw_annotation stub (Some 7) (''happy'', (10, 10, 50, 50), Some [(20, 20)])) =
      [Rectangle 7 (10, 10) (60, 60) BLUE_COLOR 2, Circle 7 (20, 20) 1 WHITE_COLOR (- 1),
       PutText 7 ''happy'' (20, 0) BLUE_COLOR]"
    "fst (draw_annotation stub (Some 7) (''sad'', (100, 20, 40, 40), None)) =
      [Rectangle 7 (100, 20) (140, 60) BLUE_COLOR 2, PutText 7 ''sad'' (110, 10) BLUE_COLOR]"
    by (simp_all add: draw_annotation_def draw_face_rectangle_def cv2_rectangle_def
        draw_landmark_points_def cv2_circle_def write_label_def cv2_putText_def stub_def
        BoundingBox_init_def origin_def top_right_def bottom_left_def skip_def)
  have o: "old_txt initial_locals = None" by (simp add: initial_locals_def)
  show ?thesis
    using pairing_truncates [of "''happy''" "''sad''" "''angry''" "(10, 10, 50, 50)" "(100, 20, 40, 40)"
        "Some [(20, 20)]" None "Some []"
        "[''happy'', ''sad'', ''angry'']" "[(10::int, 10::int, 50::int, 50::int), (100, 20, 40, 40)]"
        "[Some [(20::int, 20::int)], None, Some []]"
        every_tick initial_locals stub 7 True] d c dr o
    by (auto simp: zip3_def)
qed

section \<open>Leaving the loop\<close>

lemma fst_execute: "fst (execute d a script) = while_loop d a script initial_locals"
  by (simp add: execute_def Let_def)

text \<open>
  C6. If an iteration is reached, its key is not the quit key, and the camera gives no
  frame, then this iteration is the last one: it polls the key, reads the camera once
  and ends with an exception. No later iteration exists, so the camera is not read
  again. The exception is OpenCV's: \<open>cvtColor\<close> raises on an iteration that
  classifies, \<open>imshow\<close> on any other. In between, the loop over the faces draws
  nothing on the missing frame and prints nothing, since the labels of a non-empty
  pairing have been printed by the iteration that drew them first. With a zero period the
  exception is the \<open>ZeroDivisionError\<close> of line 88.
\<close>

theorem capture_failure_is_fatal:
  assumes "i < length (fst (execute d a script))"
      and "script ! i = (key, ok, None)"
      and "key \<noteq> int (of_char (quit_key a))"
  shows "length (fst (execute d a script)) = Suc i \<and>
         (\<exists>e. fst (execute d a script) ! i =
                ([WaitKey (wait_key_delay a), VidRead], Raised e))"
proof -
  let ?its = "while_loop d a script initial_locals"
  from assms(1) have i: "i < length ?its" by (simp add: fst_execute)
  from reachable_logged [OF i initial_logged] obtain st0 where
    st0: "?its ! i = iteration d a (script ! i) st0"
      "annotations st0 \<noteq> [] \<longrightarrow> old_txt st0 = Some (predicted_labels st0)"
    by blast
  then have it: "?its ! i = ([WaitKey (wait_key_delay a), VidRead],
      Raised (if frame_period_s a * 100 = 0 then ZeroDivisionError else CvError))"
    by (simp only: assms(2) iteration_None_logged [OF assms(3) st0(2)])
  have "\<not> Suc i < length ?its"
  proof
    assume "Suc i < length ?its"
    from while_loop_last_only [OF this] it show False by simp
  qed
  with i have "length ?its = Suc i" by simp
  with it show ?thesis by (simp add: fst_execute)
qed

text \<open>The camera fails on the second of three scripted iterations; the run has two.\<close>

theorem capture_failure_is_fatal_witness:
  "1 < length (fst (execute stub default_args
         [(- 1, True, Some 1), (- 1, False, None), (- 1, True, Some 2)])) \<and>
   [(- 1, True, Some 1), (- 1, False, None), (- 1, True, Some (2::nat))] ! 1 = (- 1, False, None) \<and>
   (- 1) \<noteq> int (of_char (quit_key default_args)) \<and>
   length (fst (execute stub default_args
         [(- 1, True, Some 1), (- 1, False, None), (- 1, True, Some 2)])) = 2 \<and>
   (\<exists>e. fst (execute stub default_args
         [(- 1, True, Some 1), (- 1, False, None), (- 1, True, Some 2)]) ! 1 =
         ([WaitKey (wait_key_delay default_args), VidRead], Raised e))"
proof -
  have h1: "1 < length (fst (execute stub default_args
         [(- 1, True, Some 1), (- 1, False, None), (- 1, True, Some 2)]))"
    by code_simp
  have h2: "[(- 1, True, Some 1), (- 1, False, None), (- 1, True, Some (2::nat))] ! 1 =
      (- 1, False, None)"
    by simp
  have h3: "(- 1) \<noteq> int (of_char (quit_key default_args))"
    by (simp add: default_args_def)
  from capture_failure_is_fatal [OF h1 h2 h3] h1 h2 h3 show ?thesis
    by simp
qed

text \<open>
  C5. The two clean-up calls stand after the loop, outside any \<open>finally\<close>. A run that
  ends on the quit key emits \<open>destroyAllWindows\<close> and \<open>release\<close> once each. A run
  whose first read gives no frame ends in \<open>imshow\<close>'s exception and emits neither.
\<close>

theorem release_skipped_on_capture_failure:
  "execute d default_args [(- 1, False, None)] =
     ([([WaitKey 33, VidRead], Raised CvError)], []) \<and>
   execute d default_args [(113, True, Some f)] =
     ([([WaitKey 33], Exited initial_locals)], [DestroyAllWindows, Release])"
proof -
  have q: "int (of_char (quit_key default_args)) = 113"
    by (simp add: default_args_def)
  have p: "frame_period_s default_args * 100 \<noteq> 0"
    by (simp add: default_args_def)
  have w: "wait_key_delay default_args = 33"
    by (simp add: default_args_def)
  have "iteration d default_args (- 1, False, None) initial_locals =
      ([WaitKey 33, VidRead], Raised CvError)"
    using iteration_None_logged [where key = "- 1" and a = default_args and d = d
        and ok = False, OF _ initial_logged] q p w
    by simp
  moreover have "iteration d default_args (113, True, Some f) initial_locals =
      ([WaitKey 33], Exited initial_locals)"
    using iteration_quit [of 113 default_args d "(True, Some f)" initial_locals] q w by simp
  ultimately show ?thesis
    by (simp add: execute_def Let_def)
qed

section \<open>Cadence\<close>

lemma initial_frame_cnt: "frame_cnt initial_locals = 0"
  by (simp add: initial_locals_def)

lemma mod_step_75: "((int i mod 75 + 1) mod 75 = 0) = (75 dvd Suc i)"
proof -
  have "(int i mod 75 + 1) mod 75 = (int i + 1) mod 75"
    by (rule mod_add_left_eq)
  also have "int i + 1 = int (Suc i)" by simp
  finally have "((int i mod 75 + 1) mod 75 = 0) = (int (Suc i) mod 75 = 0)" by simp
  also have "\<dots> = (75 dvd int (Suc i))" by (simp add: dvd_eq_mod_eq_0)
  also have "\<dots> = (int 75 dvd int (Suc i))" by simp
  also have "\<dots> = (75 dvd Suc i)" by (rule int_dvd_int_iff)
  finally show ?thesis .
qed

lemma due_mod_75:
  assumes "frame_period_s a = 3 / 4" and "frame_cnt st = int i mod 75"
  shows "due a st \<longleftrightarrow> 75 dvd Suc i"
proof -
  have p: "frame_period_s a * 100 = of_int 75" using assms(1) by simp
  have "due a st \<longleftrightarrow> (int i mod 75 + 1) mod 75 = 0"
    using due_int [OF p, of st] assms(2) by simp
  also have "\<dots> \<longleftrightarrow> 75 dvd Suc i"
    by (rule mod_step_75)
  finally show ?thesis .
qed

text \<open>
  C1. With \<open>frame_period_s = 0.75\<close> the period is 75 iterations. In any run, an
  iteration that calls the classifier is iteration 75, 150, 225, ...: no other iteration
  calls it. Every iteration that runs to its end leaves \<open>frame_cnt = 0\<close> exactly when
  its number is a multiple of 75, and on those iterations the three classifier
  operations are called, once each, on the frame just read. (Iterations are counted
  from 1; index \<open>i\<close> is iteration \<open>i + 1\<close>. An iteration that polls the quit key or
  raises calls nothing.)
\<close>

theorem cadence_75:
  assumes "frame_period_s a = 3 / 4"
      and "i < length (fst (execute d a script))"
  shows "(classifier_calls (fst (fst (execute d a script) ! i)) \<noteq> [] \<longrightarrow> 75 dvd Suc i) \<and>
         (\<forall>st'. snd (fst (execute d a script) ! i) = Running st' \<longrightarrow>
             (frame_cnt st' = 0 \<longleftrightarrow> 75 dvd Suc i) \<and>
             (75 dvd Suc i \<longrightarrow> (\<exists>key ok f. script ! i = (key, ok, Some f) \<and>
                 classifier_calls (fst (fst (execute d a script) ! i)) =
                   [Classify (gray_clahe d f), ExtractFaceRectangle f, ExtractLandmarkPoints f])))"
proof -
  let ?its = "while_loop d a script initial_locals"
  have p: "frame_period_s a * 100 = of_int 75" using assms(1) by simp
  from assms(2) have i: "i < length ?its" by (simp add: fst_execute)
  from counter_invariant [OF p _ _ _ i] obtain st0 where
    it: "?its ! i = iteration d a (script ! i) st0" and c: "frame_cnt st0 = int i mod 75"
    by (auto simp: initial_frame_cnt)
  have due: "due a st0 \<longleftrightarrow> 75 dvd Suc i"
    by (rule due_mod_75 [OF assms(1) c])
  have running: "(frame_cnt st' = 0 \<longleftrightarrow> 75 dvd Suc i) \<and>
      (\<exists>key ok f. script ! i = (key, ok, Some f) \<and>
         classifier_calls (fst (?its ! i)) =
           (if 75 dvd Suc i
            then [Classify (gray_clahe d f), ExtractFaceRectangle f, ExtractLandmarkPoints f]
            else []))"
    if r: "snd (?its ! i) = Running st'" for st'
  proof -
    from r it have e: "iteration d a (script ! i) st0 = (fst (?its ! i), Running st')"
      by (metis prod.collapse)
    have "0 \<le> int i mod 75" by simp
    then have "frame_cnt st0 + 1 \<noteq> 0" using c by linarith
    with iteration_frame_cnt [OF e] due have "frame_cnt st' = 0 \<longleftrightarrow> 75 dvd Suc i"
      by simp
    with iteration_calls [OF e] due show ?thesis by simp
  qed
  have stopped: "classifier_calls (fst (?its ! i)) = []"
    if "\<And>st'. snd (?its ! i) \<noteq> Running st'"
    using iteration_not_Running [of d a "script ! i" st0] that it by simp
  have first: "classifier_calls (fst (?its ! i)) \<noteq> [] \<longrightarrow> 75 dvd Suc i"
  proof (cases "\<exists>st'. snd (?its ! i) = Running st'")
    case True
    then obtain st' where "snd (?its ! i) = Running st'" by blast
    from running [OF this] show ?thesis by auto
  next
    case False
    with stopped show ?thesis by simp
  qed
  from first running show ?thesis
    unfolding fst_execute by (auto split: if_splits)
qed

text \<open>
  Seventy-six iterations with a frame each: the classifier is called on the 75th, and
  neither on the 74th nor on the 76th.
\<close>

theorem cadence_75_witness:
  "frame_period_s default_args = 3 / 4 \<and>
   74 < length (fst (execute stub default_args (steady 76))) \<and>
   75 dvd Suc 74 \<and>
   classifier_calls (fst (fst (execute stub default_args (steady 76)) ! 74)) =
     [Classify 0, ExtractFaceRectangle 0, ExtractLandmarkPoints 0] \<and>
   classifier_calls (fst (fst (execute stub default_args (steady 76)) ! 73)) = [] \<and>
   classifier_calls (fst (fst (execute stub default_args (steady 76)) ! 75)) = []"
proof -
  have p: "frame_period_s default_args = 3 / 4" by (simp add: default_args_def)
  have l: "length (fst (execute stub default_args (steady 76))) = 76"
    unfolding steady_def by code_simp
  have r: "snd (fst (execute stub default_args (steady 76)) ! 74) =
      Running \<lparr>frame_cnt = 0, predicted_labels = [''happy'', ''sad'', ''angry''],
        old_txt = Some [''happy'', ''sad'', ''angry''],
        rectangles = [(10, 10, 50, 50), (100, 20, 40, 40)],
        landmark_points_list = [Some [(20, 20)], None, Some []]\<rparr>"
    unfolding steady_def by code_simp
  have s: "steady 76 ! 74 = (- 1, True, Some 0)" by (simp add: steady_def)
  have g: "gray_clahe stub 0 = 0" by (simp add: stub_def)
  have i74: "74 < length (fst (execute stub default_args (steady 76)))"
    and i73: "73 < length (fst (execute stub default_args (steady 76)))"
    and i75: "75 < length (fst (execute stub default_args (steady 76)))"
    using l by simp_all
  from cadence_75 [OF p i74] r s g
  have a: "classifier_calls (fst (fst (execute stub default_args (steady 76)) ! 74)) =
     [Classify 0, ExtractFaceRectangle 0, ExtractLandmarkPoints 0]"
    by auto
  from cadence_75 [OF p i73]
  have b: "classifier_calls (fst (fst (execute stub default_args (steady 76)) ! 73)) = []"
    by auto
  from cadence_75 [OF p i75]
  have c: "classifier_calls (fst (fst (execute stub default_args (steady 76)) ! 75)) = []"
    by auto
  from p i74 a b c show ?thesis by simp
qed

section \<open>Stale annotations\<close>

lemma iteration_stale:
  assumes it: "iteration d a inp st = (ev, Running st')"
      and nd: "\<not> due a st"
      and lg: "annotations st \<noteq> [] \<longrightarrow> old_txt st = Some (predicted_labels st)"
  shows "\<exists>key ok f. inp = (key, ok, Some f) \<and>
           ev = [WaitKey (wait_key_delay a), VidRead] @ overlay d f (annotations st) @ [ImShow f] \<and>
           predicted_labels st' = predicted_labels st \<and>
           rectangles st' = rectangles st \<and>
           landmark_points_list st' = landmark_points_list st \<and>
           frame_cnt st' = frame_cnt st + 1 \<and>
           old_txt st' = old_txt st"
proof -
  from iteration_Running_facts [OF it] obtain key ok f where
    inp: "inp = (key, ok, Some f)" and
    st': "st' = (decided d a f st)\<lparr>old_txt :=
          if annotations (decided d a f st) = [] then old_txt st
          else Some (predicted_labels (decided d a f st))\<rparr>" and
    ev: "ev = WaitKey (wait_key_delay a) # VidRead #
      (if due a st then [Classify (gray_clahe d f), ExtractFaceRectangle f, ExtractLandmarkPoints f]
       else []) @
      fst (for_faces d (Some f) (predicted_labels (decided d a f st))
             (annotations (decided d a f st)) (old_txt st)) @
      [ImShow f]"
    by blast
  have dec: "decided d a f st = st\<lparr>frame_cnt := frame_cnt st + 1\<rparr>"
    using nd by (simp add: decided_def)
  have ann: "annotations (st\<lparr>frame_cnt := frame_cnt st + 1\<rparr>) = annotations st"
    by (simp add: annotations_def)
  have ff: "fst (for_faces d (Some f) (predicted_labels st) (annotations st) (old_txt st)) =
      overlay d f (annotations st)"
    by (rule for_faces_Some_overlay [OF lg])
  have "ev = [WaitKey (wait_key_delay a), VidRead] @ overlay d f (annotations st) @ [ImShow f]"
    unfolding ev dec using nd by (simp add: ann ff del: for_faces.simps)
  moreover have "old_txt st' = old_txt st"
    unfolding st' dec using lg by (simp add: ann)
  ultimately show ?thesis
    using inp by (simp add: st' dec)
qed

lemma stale_invariant:
  assumes P: "frame_period_s a * 100 = of_int P" "0 < P"
      and st: "0 \<le> frame_cnt st"
        "annotations st \<noteq> [] \<longrightarrow> old_txt st = Some (predicted_labels st)"
      and i: "i < length (while_loop d a script st)" "frame_cnt st + int i < P"
  shows "\<exists>st0. while_loop d a script st ! i = iteration d a (script ! i) st0 \<and>
           frame_cnt st0 = frame_cnt st + int i \<and>
           predicted_labels st0 = predicted_labels st \<and>
           rectangles st0 = rectangles st \<and>
           landmark_points_list st0 = landmark_points_list st \<and>
           old_txt st0 = old_txt st"
  using i
proof (induction i)
  case 0
  from while_loop_nth [OF 0(1)] show ?case by auto
next
  case (Suc j)
  then have j: "j < length (while_loop d a script st)" "frame_cnt st + int j < P"
    by simp_all
  from Suc.IH [OF j] obtain stj where
    stj: "while_loop d a script st ! j = iteration d a (script ! j) stj"
      "frame_cnt stj = frame_cnt st + int j"
      "predicted_labels stj = predicted_labels st"
      "rectangles stj = rectangles st"
      "landmark_points_list stj = landmark_points_list st"
      "old_txt stj = old_txt st"
    by blast
  from while_loop_nth [OF Suc.prems(1)] obtain st0 where
    st0: "while_loop d a script st ! Suc j = iteration d a (script ! Suc j) st0"
      "snd (while_loop d a script st ! j) = Running st0"
    by auto
  from stj(1) st0(2)
  have e: "iteration d a (script ! j) stj = (fst (iteration d a (script ! j) stj), Running st0)"
    by (metis prod.collapse)
  have "0 < frame_cnt stj + 1" "frame_cnt stj + 1 < P"
    using stj(2) st(1) Suc.prems(2) by simp_all
  then have "(frame_cnt stj + 1) mod P \<noteq> 0" by simp
  then have nd: "\<not> due a stj"
    using due_int [OF P(1), of stj] P(2) by simp
  have lg: "annotations stj \<noteq> [] \<longrightarrow> old_txt stj = Some (predicted_labels stj)"
    using st(2) stj by (simp add: annotations_def)
  from iteration_stale [OF e nd lg] stj st0(1) show ?case
    by auto
qed

text \<open>
  C2. Let the period be a whole number \<open>P\<close> of iterations, and let iteration \<open>n\<close> call
  the classifier and end with the locals \<open>st_n\<close>; its annotation set is
  \<open>annotations st_n\<close>. Then each of the following \<open>P - 1\<close> iterations \<open>j\<close> makes no
  classifier call, and, when it runs to its end, leaves the labels, the rectangles and
  the landmark sets as they are in \<open>st_n\<close> and emits exactly: the key poll, the camera
  read, the drawing of \<open>annotations st_n\<close> on the frame it has just read, and the
  display of that frame.
\<close>

theorem stale_annotations:
  assumes P: "frame_period_s a * 100 = of_int P" "0 < P"
      and n: "n < length (fst (execute d a script))"
        "fst (execute d a script) ! n = (ev_n, Running st_n)"
        "classifier_calls ev_n \<noteq> []"
      and j: "n < j" "int j < int n + P" "j < length (fst (execute d a script))"
  shows "classifier_calls (fst (fst (execute d a script) ! j)) = [] \<and>
         (\<forall>st_j. snd (fst (execute d a script) ! j) = Running st_j \<longrightarrow>
            predicted_labels st_j = predicted_labels st_n \<and>
            rectangles st_j = rectangles st_n \<and>
            landmark_points_list st_j = landmark_points_list st_n \<and>
            (\<exists>key ok f. script ! j = (key, ok, Some f) \<and>
               fst (fst (execute d a script) ! j) =
                 [WaitKey (wait_key_delay a), VidRead] @ overlay d f (annotations st_n) @
                 [ImShow f]))"
proof -
  let ?its = "while_loop d a script initial_locals"
  let ?its2 = "while_loop d a (drop (Suc n) script) st_n"
  let ?i = "j - Suc n"
  from n j have n': "n < length ?its" "?its ! n = (ev_n, Running st_n)" and j': "j < length ?its"
    by (simp_all add: fst_execute)
  from while_loop_nth [OF n'(1)] n'(2) obtain stp where
    itn: "iteration d a (script ! n) stp = (ev_n, Running st_n)"
    by auto
  from iteration_calls [OF itn] n(3) have "due a stp" by (auto split: if_splits)
  with iteration_frame_cnt [OF itn] have c0: "frame_cnt st_n = 0" by simp
  have lg: "annotations st_n \<noteq> [] \<longrightarrow> old_txt st_n = Some (predicted_labels st_n)"
    by (rule iteration_keeps_logged [OF itn])
  have split: "?its = take (Suc n) ?its @ ?its2"
    using while_loop_split [OF n'(1)] n'(2) by simp
  have lt: "length (take (Suc n) ?its) = Suc n" using n'(1) by simp
  have nth: "?its ! j = ?its2 ! ?i"
  proof -
    have "?its ! j = (take (Suc n) ?its @ ?its2) ! j" using split by simp
    also have "\<dots> = ?its2 ! ?i" using j(1) lt by (simp add: nth_append)
    finally show ?thesis .
  qed
  have len: "?i < length ?its2"
  proof -
    have "length ?its = Suc n + length ?its2"
      using split lt by (metis length_append)
    with j' j(1) show ?thesis by linarith
  qed
  have "length ?its \<le> length script" by (rule while_loop_length)
  with j' j(1) have sj: "drop (Suc n) script ! ?i = script ! j" by simp
  have bound: "frame_cnt st_n + int ?i < P" using c0 j by linarith
  from stale_invariant [OF P _ lg len bound] c0 obtain st0 where
    st0: "?its2 ! ?i = iteration d a (script ! j) st0"
      "frame_cnt st0 = int ?i"
      "predicted_labels st0 = predicted_labels st_n"
      "rectangles st0 = rectangles st_n"
      "landmark_points_list st0 = landmark_points_list st_n"
      "old_txt st0 = old_txt st_n"
    by (auto simp: sj)
  have ann0: "annotations st0 = annotations st_n"
    using st0 by (simp add: annotations_def)
  have "0 < frame_cnt st0 + 1" "frame_cnt st0 + 1 < P"
    using st0(2) j by linarith+
  then have "(frame_cnt st0 + 1) mod P \<noteq> 0" by simp
  then have nd: "\<not> due a st0"
    using due_int [OF P(1), of st0] P(2) by simp
  have lg0: "annotations st0 \<noteq> [] \<longrightarrow> old_txt st0 = Some (predicted_labels st0)"
    using lg st0 ann0 by simp
  have running: "classifier_calls (fst (?its ! j)) = [] \<and>
      predicted_labels st_j = predicted_labels st_n \<and>
      rectangles st_j = rectangles st_n \<and>
      landmark_points_list st_j = landmark_points_list st_n \<and>
      (\<exists>key ok f. script ! j = (key, ok, Some f) \<and>
         fst (?its ! j) =
           [WaitKey (wait_key_delay a), VidRead] @ overlay d f (annotations st_n) @ [ImShow f])"
    if r: "snd (?its ! j) = Running st_j" for st_j
  proof -
    from r nth st0(1)
    have e: "iteration d a (script ! j) st0 = (fst (?its ! j), Running st_j)"
      by (metis prod.collapse)
    from iteration_calls [OF e] nd have "classifier_calls (fst (?its ! j)) = []" by auto
    with iteration_stale [OF e nd lg0] st0 ann0 show ?thesis by auto
  qed
  have stopped: "classifier_calls (fst (?its ! j)) = []"
    if "\<And>st'. snd (?its ! j) \<noteq> Running st'"
    using iteration_not_Running [of d a "script ! j" st0] that nth st0(1) by simp
  have "classifier_calls (fst (?its ! j)) = []"
  proof (cases "\<exists>st'. snd (?its ! j) = Running st'")
    case True
    then obtain st' where "snd (?its ! j) = Running st'" by blast
    from running [OF this] show ?thesis by simp
  next
    case False
    with stopped show ?thesis by simp
  qed
  with running show ?thesis
    unfolding fst_execute by blast
qed

text \<open>
  With a period of three iterations the third one classifies, and the fourth draws the
  two faces again without asking.
\<close>

theorem stale_annotations_witness:
  "frame_period_s every_third * 100 = of_int 3 \<and> (0::int) < 3 \<and>
   2 < length (fst (execute stub every_third (steady 5))) \<and>
   classifier_calls (fst (fst (execute stub every_third (steady 5)) ! 2)) \<noteq> [] \<and>
   (2::nat) < 3 \<and> int 3 < int 2 + 3 \<and>
   classifier_calls (fst (fst (execute stub every_third (steady 5)) ! 3)) = [] \<and>
   fst (fst (execute stub every_third (steady 5)) ! 3) =
     [WaitKey 33, VidRead,
      Rectangle 0 (10, 10) (60, 60) BLUE_COLOR 2, Circle 0 (20, 20) 1 WHITE_COLOR (- 1),
      PutText 0 ''happy'' (20, 0) BLUE_COLOR,
      Rectangle 0 (100, 20) (140, 60) BLUE_COLOR 2,
      PutText 0 ''sad'' (110, 10) BLUE_COLOR,
      ImShow 0]"
proof -
  let ?st = "\<lparr>frame_cnt = 0, predicted_labels = [''happy'', ''sad'', ''angry''],
        old_txt = Some [''happy'', ''sad'', ''angry''],
        rectangles = [(10, 10, 50, 50), (100, 20, 40, 40)],
        landmark_points_list = [Some [(20, 20)], None, Some []]\<rparr>"
  let ?ev = "[WaitKey 33, VidRead, Classify 0, ExtractFaceRectangle 0, ExtractLandmarkPoints 0,
      Rectangle 0 (10, 10) (60, 60) BLUE_COLOR 2, Circle 0 (20, 20) 1 WHITE_COLOR (- 1),
      PutText 0 ''happy'' (20, 0) BLUE_COLOR,
      PrintLabels [''happy'', ''sad'', ''angry''],
      Rectangle 0 (100, 20) (140, 60) BLUE_COLOR 2,
      PutText 0 ''sad'' (110, 10) BLUE_COLOR,
      ImShow (0::nat)]"
  have p: "frame_period_s every_third * 100 = of_int 3" by (simp add: every_third_def)
  have p0: "(0::int) < 3" by simp
  have l: "length (fst (execute stub every_third (steady 5))) = 5"
    unfolding steady_def by code_simp
  have n2: "fst (execute stub every_third (steady 5)) ! 2 = (?ev, Running ?st)"
    unfolding steady_def by code_simp
  have c: "classifier_calls ?ev \<noteq> []"
    by (simp add: classifier_calls_def)
  have r: "snd (fst (execute stub every_third (steady 5)) ! 3) =
      Running (?st\<lparr>frame_cnt := 1\<rparr>)"
    unfolding steady_def by code_simp
  have s: "steady 5 ! 3 = (- 1, True, Some 0)" by (simp add: steady_def)
  have o: "overlay stub 0 (annotations ?st) =
     [Rectangle 0 (10, 10) (60, 60) BLUE_COLOR 2, Circle 0 (20, 20) 1 WHITE_COLOR (- 1),
      PutText 0 ''happy'' (20, 0) BLUE_COLOR,
      Rectangle 0 (100, 20) (140, 60) BLUE_COLOR 2,
      PutText 0 ''sad'' (110, 10) BLUE_COLOR]"
    by code_simp
  have w: "wait_key_delay every_third = 33" by (simp add: every_third_def)
  have i2: "2 < length (fst (execute stub every_third (steady 5)))"
    and i3: "3 < length (fst (execute stub every_third (steady 5)))"
    using l by simp_all
  have j1: "(2::nat) < 3" and j2: "int 3 < int 2 + 3" by simp_all
  from stale_annotations [OF p p0 i2 n2 c j1 j2 i3] r s o w
  have "classifier_calls (fst (fst (execute stub every_third (steady 5)) ! 3)) = [] \<and>
     fst (fst (execute stub every_third (steady 5)) ! 3) =
       [WaitKey 33, VidRead,
        Rectangle 0 (10, 10) (60, 60) BLUE_COLOR 2, Circle 0 (20, 20) 1 WHITE_COLOR (- 1),
        PutText 0 ''happy'' (20, 0) BLUE_COLOR,
        Rectangle 0 (100, 20) (140, 60) BLUE_COLOR 2,
        PutText 0 ''sad'' (110, 10) BLUE_COLOR,
        ImShow 0]"
    by auto
  with p i2 n2 c show ?thesis by (simp add: classifier_calls_def)
qed

section \<open>Before the first classification\<close>

lemma iteration_no_labels:
  assumes it: "iteration d a inp st = (ev, Running st')"
      and nd: "\<not> due a st"
      and e: "predicted_labels st = []"
  shows "predicted_labels st' = [] \<and> filter is_overlay ev = [] \<and> logs ev = []"
proof -
  have ann: "annotations st = []" using e by (simp add: annotations_def zip3_def)
  then have lg: "annotations st \<noteq> [] \<longrightarrow> old_txt st = Some (predicted_labels st)" by simp
  from iteration_stale [OF it nd lg] obtain f where
    "ev = [WaitKey (wait_key_delay a), VidRead] @ overlay d f (annotations st) @ [ImShow f]"
    "predicted_labels st' = predicted_labels st"
    by blast
  then show ?thesis using e ann by (simp add: overlay_def logs_def)
qed

lemma no_labels_invariant:
  assumes st: "predicted_labels st = []"
      and i: "i < length (while_loop d a script st)"
      and q: "\<forall>j < i. classifier_calls (fst (while_loop d a script st ! j)) = []"
  shows "\<exists>st0. while_loop d a script st ! i = iteration d a (script ! i) st0 \<and>
               predicted_labels st0 = []"
  using i q
proof (induction i)
  case 0
  from while_loop_nth [OF 0(1)] st show ?case by auto
next
  case (Suc j)
  then have j: "j < length (while_loop d a script st)"
    "\<forall>k < j. classifier_calls (fst (while_loop d a script st ! k)) = []"
    by simp_all
  from Suc.IH [OF j] obtain stj where
    stj: "while_loop d a script st ! j = iteration d a (script ! j) stj"
      "predicted_labels stj = []"
    by blast
  from while_loop_nth [OF Suc.prems(1)] obtain st0 where
    st0: "while_loop d a script st ! Suc j = iteration d a (script ! Suc j) st0"
      "snd (while_loop d a script st ! j) = Running st0"
    by auto
  from stj(1) st0(2)
  have e: "iteration d a (script ! j) stj = (fst (while_loop d a script st ! j), Running st0)"
    by (metis prod.collapse)
  from Suc.prems(2) have "classifier_calls (fst (while_loop d a script st ! j)) = []" by simp
  with iteration_calls [OF e] have nd: "\<not> due a stj" by (auto split: if_splits)
  from iteration_no_labels [OF e nd stj(2)] st0(1) show ?case by blast
qed

text \<open>
  C10. The loop starts with no labels, one placeholder rectangle \<open>(0, 0, 0, 0)\<close> and one
  placeholder landmark set \<open>[(0, 0)]\<close>. In any run, an iteration up to which the
  classifier has not been called (so every iteration before the first due one) draws
  nothing on the frame and prints nothing: pairing no labels with the placeholders
  gives no annotation.
\<close>

theorem nothing_before_first_classification:
  "predicted_labels initial_locals = [] \<and>
   rectangles initial_locals = [(0, 0, 0, 0)] \<and>
   landmark_points_list initial_locals = [Some [(0, 0)]] \<and>
   (\<forall>i < length (fst (execute d a script)).
      (\<forall>j \<le> i. classifier_calls (fst (fst (execute d a script) ! j)) = []) \<longrightarrow>
      filter is_overlay (fst (fst (execute d a script) ! i)) = [] \<and>
      logs (fst (fst (execute d a script) ! i)) = [])"
proof -
  let ?its = "while_loop d a script initial_locals"
  have e0: "predicted_labels initial_locals = []" by (simp add: initial_locals_def)
  have "filter is_overlay (fst (?its ! i)) = [] \<and> logs (fst (?its ! i)) = []"
    if i: "i < length ?its" and q: "\<forall>j \<le> i. classifier_calls (fst (?its ! j)) = []" for i
  proof -
    from q have q': "\<forall>j < i. classifier_calls (fst (?its ! j)) = []" by simp
    from no_labels_invariant [OF e0 i q'] obtain st0 where
      st0: "?its ! i = iteration d a (script ! i) st0" "predicted_labels st0 = []"
      by blast
    show ?thesis
    proof (cases "\<exists>st'. snd (?its ! i) = Running st'")
      case True
      then obtain st' where "snd (?its ! i) = Running st'" by blast
      with st0(1) have e: "iteration d a (script ! i) st0 = (fst (?its ! i), Running st')"
        by (metis prod.collapse)
      from q have "classifier_calls (fst (?its ! i)) = []" by simp
      with iteration_calls [OF e] have nd: "\<not> due a st0" by (auto split: if_splits)
      from iteration_no_labels [OF e nd st0(2)] show ?thesis by simp
    next
      case False
      then have "\<And>st'. snd (iteration d a (script ! i) st0) \<noteq> Running st'"
        using st0(1) by simp
      moreover have "annotations st0 = []"
        using st0(2) by (simp add: annotations_def zip3_def)
      ultimately show ?thesis
        using iteration_not_Running [of d a "script ! i" st0] st0(1) by simp
    qed
  qed
  then show ?thesis
    by (simp add: fst_execute initial_locals_def)
qed

text \<open>With the default period the second iteration only reads and shows the frame.\<close>

theorem nothing_before_first_classification_witness:
  "1 < length (fst (execute stub default_args (steady 3))) \<and>
   classifier_calls (fst (fst (execute stub default_args (steady 3)) ! 0)) = [] \<and>
   classifier_calls (fst (fst (execute stub default_args (steady 3)) ! 1)) = [] \<and>
   filter is_overlay (fst (fst (execute stub default_args (steady 3)) ! 1)) = [] \<and>
   logs (fst (fst (execute stub default_args (steady 3)) ! 1)) = [] \<and>
   fst (fst (execute stub default_args (steady 3)) ! 1) = [WaitKey 33, VidRead, ImShow 0]"
proof -
  have l: "1 < length (fst (execute stub default_args (steady 3)))"
    unfolding steady_def by code_simp
  have c0: "classifier_calls (fst (fst (execute stub default_args (steady 3)) ! 0)) = []"
    unfolding steady_def by code_simp
  have c1: "classifier_calls (fst (fst (execute stub default_args (steady 3)) ! 1)) = []"
    unfolding steady_def by code_simp
  have q: "\<forall>j \<le> 1. classifier_calls (fst (fst (execute stub default_args (steady 3)) ! j)) = []"
  proof (intro allI impI)
    fix j :: nat
    assume "j \<le> 1"
    then have "j = 0 \<or> j = 1" by linarith
    with c0 c1 show "classifier_calls (fst (fst (execute stub default_args (steady 3)) ! j)) = []"
      by auto
  qed
  have ev: "fst (fst (execute stub default_args (steady 3)) ! 1) = [WaitKey 33, VidRead, ImShow 0]"
    unfolding steady_def by code_simp
  from nothing_before_first_classification [of stub default_args "steady 3"] l q
  have "filter is_overlay (fst (fst (execute stub default_args (steady 3)) ! 1)) = [] \<and>
     logs (fst (fst (execute stub default_args (steady 3)) ! 1)) = []"
    by blast
  with l c0 c1 ev show ?thesis by blast
qed


section \<open>The change log\<close>

lemma iteration_logs:
  assumes "iteration d a inp st = (ev, Running st')"
  shows "logs ev = (if annotations st' \<noteq> [] \<and> old_txt st \<noteq> Some (predicted_labels st')
                    then [predicted_labels st'] else []) \<and>
         old_txt st' = (if annotations st' \<noteq> [] then Some (predicted_labels st') else old_txt st)"
proof -
  from iteration_Running_facts [OF assms] obtain f where
    st': "st' = (decided d a f st)\<lparr>old_txt :=
          if annotations (decided d a f st) = [] then old_txt st
          else Some (predicted_labels (decided d a f st))\<rparr>" and
    ev: "ev = WaitKey (wait_key_delay a) # VidRead #
      (if due a st then [Classify (gray_clahe d f), ExtractFaceRectangle f, ExtractLandmarkPoints f]
       else []) @
      fst (for_faces d (Some f) (predicted_labels (decided d a f st))
             (annotations (decided d a f st)) (old_txt st)) @
      [ImShow f]"
    by blast
  have "logs ev = logs (fst (for_faces d (Some f) (predicted_labels (decided d a f st))
             (annotations (decided d a f st)) (old_txt st)))"
    unfolding ev by (simp add: logs_Cons del: for_faces.simps)
  then show ?thesis
    unfolding for_faces_Some_logs st' by simp
qed

lemma iteration_log_step:
  assumes "iteration d a inp st = (ev, Running st')"
  shows "(logs ev = [] \<and> old_txt st' = old_txt st) \<or>
         (\<exists>l. logs ev = [l] \<and> old_txt st \<noteq> Some l \<and> old_txt st' = Some l)"
  using iteration_logs [OF assms] by (auto split: if_splits)

lemma run_logs_Cons: "run_logs (it # its) = logs (fst it) @ run_logs its"
  by (simp add: run_logs_def)

lemma run_logs_Nil [simp]: "run_logs [] = []"
  by (simp add: run_logs_def)

lemma while_loop_Cons_Running:
  "snd (iteration d a inp st) = Running st1 \<Longrightarrow>
   while_loop d a (inp # rest) st = iteration d a inp st # while_loop d a rest st1"
  by (simp add: Let_def)

lemma while_loop_Cons_stopped:
  assumes "\<And>st1. snd (iteration d a inp st) \<noteq> Running st1"
  shows "while_loop d a (inp # rest) st = [iteration d a inp st]"
proof (cases "snd (iteration d a inp st)")
  case (Running x)
  with assms [of x] show ?thesis by simp
next
  case (Exited x)
  then show ?thesis by (simp add: Let_def)
next
  case (Raised e)
  then show ?thesis by (simp add: Let_def)
qed

lemma logs_never_repeat:
  assumes "annotations st \<noteq> [] \<longrightarrow> old_txt st = Some (predicted_labels st)"
  shows "distinct_adj ((case old_txt st of None \<Rightarrow> [] | Some l \<Rightarrow> [l]) @
                 run_logs (while_loop d a script st))"
  using assms
proof (induction script arbitrary: st)
  case Nil
  show ?case by (simp split: option.splits)
next
  case (Cons inp rest)
  show ?case
  proof (cases "\<exists>st1. snd (iteration d a inp st) = Running st1")
    case True
    then obtain st1 where r: "snd (iteration d a inp st) = Running st1" by blast
    then have e: "iteration d a inp st = (fst (iteration d a inp st), Running st1)"
      by (metis prod.collapse)
    note ih = Cons.IH [OF iteration_keeps_logged [OF e]]
    from iteration_log_step [OF e] show ?thesis
    proof (elim disjE conjE exE)
      assume "logs (fst (iteration d a inp st)) = []" "old_txt st1 = old_txt st"
      with ih show ?thesis
        by (simp add: while_loop_Cons_Running [OF r] run_logs_Cons del: while_loop.simps)
    next
      fix l
      assume l: "logs (fst (iteration d a inp st)) = [l]" "old_txt st \<noteq> Some l"
        "old_txt st1 = Some l"
      with ih have "distinct_adj (l # run_logs (while_loop d a rest st1))" by simp
      with l show ?thesis
        by (auto simp: while_loop_Cons_Running [OF r] run_logs_Cons simp del: while_loop.simps
            split: option.splits)
    qed
  next
    case False
    then have n: "\<And>st1. snd (iteration d a inp st) \<noteq> Running st1" by blast
    from iteration_not_Running [OF n] Cons.prems
    have "logs (fst (iteration d a inp st)) = []" by simp
    then show ?thesis
      by (simp add: while_loop_Cons_stopped [OF n] run_logs_Cons del: while_loop.simps
          split: option.splits)
  qed
qed

lemma old_txt_is_last_logged:
  assumes "i < length (while_loop d a script st)"
      and "snd (while_loop d a script st ! i) = Running st'"
  shows "old_txt st' =
           (if run_logs (take (Suc i) (while_loop d a script st)) = [] then old_txt st
            else Some (last (run_logs (take (Suc i) (while_loop d a script st)))))"
  using assms
proof (induction script arbitrary: st i)
  case Nil
  then show ?case by simp
next
  case (Cons inp rest)
  have "\<exists>st1. snd (iteration d a inp st) = Running st1"
  proof (rule ccontr)
    assume "\<not> ?thesis"
    then have n: "\<And>st1. snd (iteration d a inp st) \<noteq> Running st1" by blast
    from Cons.prems show False
      by (simp add: while_loop_Cons_stopped [OF n] n del: while_loop.simps)
  qed
  then obtain st1 where r: "snd (iteration d a inp st) = Running st1" by blast
  then have e: "iteration d a inp st = (fst (iteration d a inp st), Running st1)"
    by (metis prod.collapse)
  note step = iteration_log_step [OF e]
  note unf = while_loop_Cons_Running [OF r]
  show ?case
  proof (cases i)
    case 0
    with Cons.prems r have "st' = st1" by (simp add: unf del: while_loop.simps)
    with step 0 show ?thesis
      by (auto simp: unf run_logs_Cons simp del: while_loop.simps)
  next
    case (Suc k)
    with Cons.prems have k: "k < length (while_loop d a rest st1)"
      "snd (while_loop d a rest st1 ! k) = Running st'"
      by (simp_all add: unf del: while_loop.simps)
    from Cons.IH [OF k] step Suc show ?thesis
      by (auto simp: unf run_logs_Cons simp del: while_loop.simps)
  qed
qed


lemma old_txt_before:
  assumes i: "i < length (while_loop d a script st)"
      and st: "annotations st \<noteq> [] \<longrightarrow> old_txt st = Some (predicted_labels st)"
  shows "\<exists>st0. while_loop d a script st ! i = iteration d a (script ! i) st0 \<and>
           (annotations st0 \<noteq> [] \<longrightarrow> old_txt st0 = Some (predicted_labels st0)) \<and>
           old_txt st0 =
             (if run_logs (take i (while_loop d a script st)) = [] then old_txt st
              else Some (last (run_logs (take i (while_loop d a script st)))))"
proof (cases i)
  case 0
  with while_loop_nth [OF i] st show ?thesis by auto
next
  case (Suc k)
  with while_loop_nth [OF i] obtain st0 where
    st0: "while_loop d a script st ! i = iteration d a (script ! i) st0"
      "snd (while_loop d a script st ! k) = Running st0"
    by auto
  from i Suc have k: "k < length (while_loop d a script st)" by simp
  from while_loop_nth [OF k] obtain stk where
    "while_loop d a script st ! k = iteration d a (script ! k) stk"
    by blast
  with st0(2) have "iteration d a (script ! k) stk =
      (fst (while_loop d a script st ! k), Running st0)"
    by (metis prod.collapse)
  from iteration_keeps_logged [OF this]
  have lg: "annotations st0 \<noteq> [] \<longrightarrow> old_txt st0 = Some (predicted_labels st0)" .
  from old_txt_is_last_logged [OF k st0(2)] st0(1) Suc lg show ?thesis by blast
qed

text \<open>
  What the loop prints. The comparison of \<open>old_txt\<close> with the label collection (lines 98
  to 100) sits inside the loop over the paired annotations. So, in every run, an iteration
  prints the label collection exactly when its pairing is not empty and the collection
  differs from the one printed last; it then prints it once, whatever the number of faces.
  An iteration that quits or raises prints nothing. The same collection is therefore never
  printed twice in a row.
\<close>

theorem change_log:
  "distinct_adj (run_logs (fst (execute d a script))) \<and>
   (\<forall>i < length (fst (execute d a script)).
      logs (fst (fst (execute d a script) ! i)) =
        (case snd (fst (execute d a script) ! i) of
           Running st' \<Rightarrow>
             if annotations st' \<noteq> [] \<and>
                last_logged (run_logs (take i (fst (execute d a script)))) \<noteq>
                  Some (predicted_labels st')
             then [predicted_labels st'] else []
         | Exited st' \<Rightarrow> []
         | Raised e \<Rightarrow> []))"
proof -
  let ?its = "while_loop d a script initial_locals"
  have o: "old_txt initial_locals = None" by (simp add: initial_locals_def)
  from logs_never_repeat [OF initial_logged, of d a script]
  have da: "distinct_adj (run_logs ?its)" by (simp add: o)
  have "logs (fst (?its ! i)) =
        (case snd (?its ! i) of
           Running st' \<Rightarrow>
             if annotations st' \<noteq> [] \<and>
                last_logged (run_logs (take i ?its)) \<noteq> Some (predicted_labels st')
             then [predicted_labels st'] else []
         | Exited st' \<Rightarrow> []
         | Raised e \<Rightarrow> [])" if i: "i < length ?its" for i
  proof -
    from old_txt_before [OF i initial_logged] obtain st0 where
      it: "?its ! i = iteration d a (script ! i) st0"
      and lg: "annotations st0 \<noteq> [] \<longrightarrow> old_txt st0 = Some (predicted_labels st0)"
      and ot: "old_txt st0 =
             (if run_logs (take i ?its) = [] then old_txt initial_locals
              else Some (last (run_logs (take i ?its))))"
      by blast
    from ot have "old_txt st0 = last_logged (run_logs (take i ?its))"
      by (simp add: o last_logged_def)
    note st0 = it this
    show ?thesis
    proof (cases "snd (?its ! i)")
      case (Running st')
      with st0(1) have e: "iteration d a (script ! i) st0 = (fst (?its ! i), Running st')"
        by (metis prod.collapse)
      from iteration_logs [OF e] st0(2) Running show ?thesis by simp
    next
      case (Exited st')
      with st0(1) have "\<And>s. snd (iteration d a (script ! i) st0) \<noteq> Running s" by simp
      from iteration_not_Running [OF this] st0(1) lg Exited show ?thesis by simp
    next
      case (Raised e)
      with st0(1) have "\<And>s. snd (iteration d a (script ! i) st0) \<noteq> Running s" by simp
      from iteration_not_Running [OF this] st0(1) lg Raised show ?thesis by simp
    qed
  qed
  with da show ?thesis unfolding fst_execute by blast
qed

text \<open>
  With a classification on every iteration and the same three labels each time, the labels
  are printed in the first iteration and not again.
\<close>

theorem change_log_witness:
  "1 < length (fst (execute stub every_tick (steady 3))) \<and>
   snd (fst (execute stub every_tick (steady 3)) ! 0) =
     Running \<lparr>frame_cnt = 0, predicted_labels = [''happy'', ''sad'', ''angry''],
       old_txt = Some [''happy'', ''sad'', ''angry''],
       rectangles = [(10, 10, 50, 50), (100, 20, 40, 40)],
       landmark_points_list = [Some [(20, 20)], None, Some []]\<rparr> \<and>
   snd (fst (execute stub every_tick (steady 3)) ! 1) =
     Running \<lparr>frame_cnt = 0, predicted_labels = [''happy'', ''sad'', ''angry''],
       old_txt = Some [''happy'', ''sad'', ''angry''],
       rectangles = [(10, 10, 50, 50), (100, 20, 40, 40)],
       landmark_points_list = [Some [(20, 20)], None, Some []]\<rparr> \<and>
   logs (fst (fst (execute stub every_tick (steady 3)) ! 0)) = [[''happy'', ''sad'', ''angry'']] \<and>
   logs (fst (fst (execute stub every_tick (steady 3)) ! 1)) = [] \<and>
   run_logs (fst (execute stub every_tick (steady 3))) = [[''happy'', ''sad'', ''angry'']]"
proof -
  let ?its = "fst (execute stub every_tick (steady 3))"
  let ?st = "\<lparr>frame_cnt = 0, predicted_labels = [''happy'', ''sad'', ''angry''],
       old_txt = Some [''happy'', ''sad'', ''angry''],
       rectangles = [(10, 10, 50, 50), (100, 20, 40, 40)],
       landmark_points_list = [Some [(20, 20)], None, Some []]\<rparr>"
  have l: "1 < length ?its" unfolding steady_def by code_simp
  then have l0: "0 < length ?its" by linarith
  have s0: "snd (?its ! 0) = Running ?st" unfolding steady_def by code_simp
  have s1: "snd (?its ! 1) = Running ?st" unfolding steady_def by code_simp
  have ann: "annotations ?st \<noteq> []" by (simp add: annotations_def zip3_def)
  have p: "predicted_labels ?st = [''happy'', ''sad'', ''angry'']" by simp
  have ll0: "last_logged (run_logs (take 0 ?its)) = None" by (simp add: last_logged_def)
  have ll1: "last_logged (run_logs (take 1 ?its)) = Some [''happy'', ''sad'', ''angry'']"
    unfolding steady_def by code_simp
  have rl: "run_logs ?its = [[''happy'', ''sad'', ''angry'']]"
    unfolding steady_def by code_simp
  note cl = change_log [of stub every_tick "steady 3"]
  from cl l0
  have "logs (fst (?its ! 0)) =
        (case snd (?its ! 0) of
           Running st' \<Rightarrow>
             if annotations st' \<noteq> [] \<and>
                last_logged (run_logs (take 0 ?its)) \<noteq> Some (predicted_labels st')
             then [predicted_labels st'] else []
         | Exited st' \<Rightarrow> []
         | Raised e \<Rightarrow> [])"
    by blast
  then have f0: "logs (fst (?its ! 0)) = [[''happy'', ''sad'', ''angry'']]"
    unfolding s0 ll0 outcome.case p using ann by simp
  from cl l
  have "logs (fst (?its ! 1)) =
        (case snd (?its ! 1) of
           Running st' \<Rightarrow>
             if annotations st' \<noteq> [] \<and>
                last_logged (run_logs (take 1 ?its)) \<noteq> Some (predicted_labels st')
             then [predicted_labels st'] else []
         | Exited st' \<Rightarrow> []
         | Raised e \<Rightarrow> [])"
    by blast
  then have f1: "logs (fst (?its ! 1)) = []"
    unfolding s1 ll1 outcome.case p by simp
  from l s0 s1 f0 f1 rl show ?thesis by blast
qed

text \<open>
  C4. The change log misses changes. Lines 98 to 100 compare the whole label collection
  with the one printed last, but they stand inside the loop over the faces, so they are
  not reached when the pairing is empty. With a classification on every iteration, the
  face leaves the picture and comes back: the label collections of the three iterations
  are \<open>[happy]\<close>, \<open>[no face]\<close> and \<open>[happy]\<close>. When \<open>no face\<close> comes with no
  rectangle, only the first is printed: the second iteration has a collection that
  differs from the one printed last and prints nothing, and the third finds \<open>old_txt\<close>
  still equal to \<open>[happy]\<close>. When \<open>no face\<close> comes with a rectangle, the same three
  collections are printed one after the other.
\<close>

theorem label_change_not_logged:
  "map snd (fst (execute face_leaves every_tick face_comes_back)) =
     [Running \<lparr>frame_cnt = 0, predicted_labels = [''happy''], old_txt = Some [''happy''],
        rectangles = [(10, 10, 50, 50)], landmark_points_list = [None]\<rparr>,
      Running \<lparr>frame_cnt = 0, predicted_labels = [''no face''], old_txt = Some [''happy''],
        rectangles = [], landmark_points_list = []\<rparr>,
      Running \<lparr>frame_cnt = 0, predicted_labels = [''happy''], old_txt = Some [''happy''],
        rectangles = [(10, 10, 50, 50)], landmark_points_list = [None]\<rparr>] \<and>
   fst (fst (execute face_leaves every_tick face_comes_back) ! 1) =
     [WaitKey 33, VidRead, Classify 1, ExtractFaceRectangle 1, ExtractLandmarkPoints 1, ImShow 1] \<and>
   run_logs (fst (execute face_leaves every_tick face_comes_back)) = [[''happy'']] \<and>
   snd (fst (execute face_leaves_boxed every_tick face_comes_back) ! 1) =
     Running \<lparr>frame_cnt = 0, predicted_labels = [''no face''], old_txt = Some [''no face''],
        rectangles = [(0, 0, 0, 0)], landmark_points_list = [None]\<rparr> \<and>
   run_logs (fst (execute face_leaves_boxed every_tick face_comes_back)) =
     [[''happy''], [''no face''], [''happy'']]"
  unfolding face_comes_back_def by code_simp

end
